theory Spec2Isabelle
  imports Complex_Main "HOL-Library.Multiset"
begin

section \<open>Signal detection and replay engine of \<open>replay_runner.py\<close>\<close>

text \<open>
  The engine works on pandas frames of float64 columns. A float64 value is modelled as a
  \<open>cell\<close>: \<open>Some x\<close> is the number \<open>x\<close>, \<open>None\<close> is NaN. Numbers are exact reals:
  rounding, overflow and infinite inputs are outside the model. The one place where the
  source can divide by zero without raising (\<open>detect_long_wick\<close>, on numpy scalars) has
  the IEEE outcome of the comparison written out.
\<close>

subsection \<open>Float cells\<close>

type_synonym cell = "real option"

fun cell_add :: "cell \<Rightarrow> cell \<Rightarrow> cell" where
  "cell_add (Some x) (Some y) = Some (x + y)"
| "cell_add _ _ = None"

fun cell_sub :: "cell \<Rightarrow> cell \<Rightarrow> cell" where
  "cell_sub (Some x) (Some y) = Some (x - y)"
| "cell_sub _ _ = None"

fun cell_mul :: "cell \<Rightarrow> cell \<Rightarrow> cell" where
  "cell_mul (Some x) (Some y) = Some (x * y)"
| "cell_mul _ _ = None"

text \<open>
  Series division. A zero divisor would give an infinity or NaN in float64; the only
  Series division of the source (\<open>pv / v\<close> in \<open>rolling_vwap\<close>) divides by a series whose
  zeros were replaced by NaN, so that branch is never taken there.
\<close>

fun cell_div :: "cell \<Rightarrow> cell \<Rightarrow> cell" where
  "cell_div (Some x) (Some y) = (if y = 0 then None else Some (x / y))"
| "cell_div _ _ = None"

fun cell_abs :: "cell \<Rightarrow> cell" where
  "cell_abs (Some x) = Some \<bar>x\<bar>"
| "cell_abs None = None"

text \<open>Comparisons with NaN are false.\<close>

fun cell_less :: "cell \<Rightarrow> cell \<Rightarrow> bool" where
  "cell_less (Some x) (Some y) = (x < y)"
| "cell_less _ _ = False"

fun cell_le :: "cell \<Rightarrow> cell \<Rightarrow> bool" where
  "cell_le (Some x) (Some y) = (x \<le> y)"
| "cell_le _ _ = False"

text \<open>Python's builtin \<open>max(a, b)\<close>: \<open>b\<close> if \<open>b > a\<close>, else \<open>a\<close>.\<close>

definition py_max :: "cell \<Rightarrow> cell \<Rightarrow> cell" where
  "py_max a b = (if cell_less a b then b else a)"

text \<open>The elementwise maximum of numpy, which propagates NaN.\<close>

fun np_max :: "cell \<Rightarrow> cell \<Rightarrow> cell" where
  "np_max (Some x) (Some y) = Some (max x y)"
| "np_max _ _ = None"

subsection \<open>Frames\<close>

text \<open>
  A row of an OHLCV frame. The index label \<open>ts\<close> is a local wall-clock timestamp in
  seconds; its calendar day, hour and minute are read off it.
\<close>

record bar =
  ts :: int
  Open :: cell
  High :: cell
  Low :: cell
  Close :: cell
  Volume :: cell

definition ts_date :: "int \<Rightarrow> int" where
  "ts_date t = t div 86400"

definition ts_hour :: "int \<Rightarrow> int" where
  "ts_hour t = (t div 3600) mod 24"

definition ts_minute :: "int \<Rightarrow> int" where
  "ts_minute t = (t div 60) mod 60"

text \<open>
  The exceptions of a run: those Python raises in the code below, and \<open>FetchError\<close> for
  whatever a fetch of the Bar Source raises.
\<close>

datatype error = TypeError | KeyError | ZeroDivisionError | FetchError

subsection \<open>Series operations of pandas used by the engine\<close>

text \<open>\<open>Series.cumsum()\<close>: NaN entries stay NaN and are skipped by the running sum.\<close>

fun cumsum_from :: "real \<Rightarrow> cell list \<Rightarrow> cell list" where
  "cumsum_from acc [] = []"
| "cumsum_from acc (None # xs) = None # cumsum_from acc xs"
| "cumsum_from acc (Some x # xs) = Some (acc + x) # cumsum_from (acc + x) xs"

definition cumsum :: "cell list \<Rightarrow> cell list" where
  "cumsum xs = cumsum_from 0 xs"

text \<open>\<open>Series.replace(0, np.nan)\<close>.\<close>

definition replace_zero :: "cell list \<Rightarrow> cell list" where
  "replace_zero xs = map (\<lambda>c. if c = Some 0 then None else c) xs"

text \<open>\<open>Series.fillna(method="ffill")\<close>: a NaN takes the last value before it that is not NaN.\<close>

fun ffill_from :: "cell \<Rightarrow> cell list \<Rightarrow> cell list" where
  "ffill_from prev [] = []"
| "ffill_from prev (None # xs) = prev # ffill_from prev xs"
| "ffill_from prev (Some x # xs) = Some x # ffill_from (Some x) xs"

definition ffill :: "cell list \<Rightarrow> cell list" where
  "ffill xs = ffill_from None xs"

text \<open>\<open>Series.shift(1)\<close> and \<open>Series.fillna(other)\<close> with an aligned series.\<close>

definition shift1 :: "cell list \<Rightarrow> cell list" where
  "shift1 xs = (if xs = [] then [] else None # butlast xs)"

definition fillna_with :: "cell list \<Rightarrow> cell list \<Rightarrow> cell list" where
  "fillna_with xs other = map2 (\<lambda>x y. case x of None \<Rightarrow> y | Some v \<Rightarrow> Some v) xs other"

text \<open>
  \<open>Series.rolling(w, min_periods=mp).mean()\<close>: at each position the mean of the entries
  that are not NaN among the last \<open>w\<close> positions, NaN when fewer than \<open>mp\<close> of them exist.
\<close>

definition window_mean :: "nat \<Rightarrow> cell list \<Rightarrow> cell" where
  "window_mean mp win =
     (let obs = List.map_filter id win
      in if length obs < mp \<or> obs = [] then None
         else Some (sum_list obs / real (length obs)))"

fun rolling_from :: "nat \<Rightarrow> nat \<Rightarrow> cell list \<Rightarrow> cell list \<Rightarrow> cell list" where
  "rolling_from w mp seen [] = []"
| "rolling_from w mp seen (x # xs) =
     window_mean mp (drop (Suc (length seen) - w) (seen @ [x]))
       # rolling_from w mp (seen @ [x]) xs"

definition rolling_mean :: "nat \<Rightarrow> nat \<Rightarrow> cell list \<Rightarrow> cell list" where
  "rolling_mean w mp xs = rolling_from w mp [] xs"

text \<open>
  \<open>np.maximum(x1, x2, out)\<close>: \<open>maximum\<close> is a binary ufunc, and its third positional
  parameter is the output buffer. The elementwise maximum of \<open>x1\<close> and \<open>x2\<close> is written
  over the contents of \<open>out\<close> and returned.
\<close>

definition np_maximum :: "cell list \<Rightarrow> cell list \<Rightarrow> cell list \<Rightarrow> cell list" where
  "np_maximum x1 x2 out = map2 np_max x1 x2"

subsection \<open>Indicator engine\<close>

text \<open>\<open>rolling_vwap\<close>, lines 60-63.\<close>

definition rolling_vwap :: "bar list \<Rightarrow> cell list" where
  "rolling_vwap bars =
     (let pv = cumsum (map (\<lambda>b. cell_mul (Close b) (Volume b)) bars);
          v = replace_zero (cumsum (map Volume bars))
      in ffill (map2 cell_div pv v))"

text \<open>The indicator step of \<open>five_min_signals\<close>, lines 80-84.\<close>

definition prev_close :: "bar list \<Rightarrow> cell list" where
  "prev_close bars = fillna_with (shift1 (map Close bars)) (map Open bars)"

definition true_range :: "bar list \<Rightarrow> cell list" where
  "true_range bars =
     np_maximum (map (\<lambda>b. cell_sub (High b) (Low b)) bars)
                (map2 (\<lambda>b pc. cell_abs (cell_sub (High b) pc)) bars (prev_close bars))
                (map2 (\<lambda>b pc. cell_abs (cell_sub (Low b) pc)) bars (prev_close bars))"

definition atr :: "bar list \<Rightarrow> cell list" where
  "atr bars = ffill (rolling_mean 14 1 (true_range bars))"

subsection \<open>Signal detector\<close>

datatype kind = ENTRY | EXIT

datatype reason = break_premarket | vwap_reclaim | vwap_loss | long_wick | atr_stop

type_synonym event = "int \<times> kind \<times> reason \<times> cell"

text \<open>
  \<open>detect_long_wick\<close>, lines 66-70, with \<open>wick_ratio = 0.6\<close>. The operands are numpy
  scalars, so a zero \<open>total_range\<close> does not raise: the quotient is \<open>+inf\<close>, \<open>-inf\<close> or
  NaN, and \<open>>= wick_ratio\<close> holds of \<open>+inf\<close> only. The ratio 0.6 is \<open>3 / 5\<close>.
\<close>

definition detect_long_wick :: "bar \<Rightarrow> bool" where
  "detect_long_wick row =
     (let body_top = py_max (Open row) (Close row);
          upper_wick = cell_sub (High row) body_top;
          total_range = cell_add (cell_sub (High row) (Low row)) (Some (1 / 10 ^ 9))
      in case (upper_wick, total_range) of
           (Some u, Some t) \<Rightarrow> (if t = 0 then 0 < u else 3 / 5 \<le> u / t)
         | _ \<Rightarrow> False)"

text \<open>
  \<open>series.loc[ts]\<close> followed by \<open>float(...)\<close>: a label that occurs once selects a scalar;
  a label that occurs several times selects a Series, which \<open>float\<close> refuses.
\<close>

definition loc_float :: "int list \<Rightarrow> cell list \<Rightarrow> int \<Rightarrow> error + cell" where
  "loc_float idx s t =
     (case map snd (filter (\<lambda>kv. fst kv = t) (zip idx s)) of
        [] \<Rightarrow> Inl KeyError
      | [v] \<Rightarrow> Inr v
      | _ \<Rightarrow> Inl TypeError)"

text \<open>
  The body of the loop over the rows, lines 89-123: the event appended for this row, if
  any, and the new value of \<open>entry_price_per_t\<close> (\<open>None\<close> is Python's \<open>None\<close>).
  The reference \<open>premarket_high\<close> is \<open>None\<close> or a float.
\<close>

definition signal_step ::
  "cell option \<Rightarrow> bar \<Rightarrow> cell \<Rightarrow> cell \<Rightarrow> cell option \<Rightarrow> event option \<times> cell option" where
  "signal_step premarket_high row cur_vwap cur_atr entry_price =
     (let price = Close row in
      if (case premarket_high of None \<Rightarrow> False | Some p \<Rightarrow> cell_less p price)
      then (Some (ts row, ENTRY, break_premarket, price), Some price)
      else if cell_less cur_vwap price \<and> cell_less (Open row) (Close row)
      then (Some (ts row, ENTRY, vwap_reclaim, price), Some price)
      else if cell_less price cur_vwap
      then (Some (ts row, EXIT, vwap_loss, price), None)
      else if detect_long_wick row
      then (Some (ts row, EXIT, long_wick, price), None)
      else (case entry_price of
              None \<Rightarrow> (None, entry_price)
            | Some e \<Rightarrow>
                (let stop = cell_sub e (cell_mul (Some (3 / 2)) cur_atr)
                 in if cell_le price stop
                    then (Some (ts row, EXIT, atr_stop, price), None)
                    else (None, entry_price))))"

fun signal_loop ::
  "int list \<Rightarrow> cell list \<Rightarrow> cell list \<Rightarrow> cell option \<Rightarrow> bar list \<Rightarrow> cell option
     \<Rightarrow> event list \<Rightarrow> error + event list" where
  "signal_loop idx vwap atrs pm [] entry_price events = Inr events"
| "signal_loop idx vwap atrs pm (row # rows) entry_price events =
     (case loc_float idx vwap (ts row) of
        Inl e \<Rightarrow> Inl e
      | Inr cur_vwap \<Rightarrow>
          (case (if ts row \<in> set idx then loc_float idx atrs (ts row) else Inr (last atrs)) of
             Inl e \<Rightarrow> Inl e
           | Inr cur_atr \<Rightarrow>
               (case signal_step pm row cur_vwap cur_atr entry_price of
                  (ev, entry_price') \<Rightarrow>
                    signal_loop idx vwap atrs pm rows entry_price'
                      (events @ (case ev of None \<Rightarrow> [] | Some e \<Rightarrow> [e])))))"

text \<open>
  \<open>dropna(subset=["Close", "Volume"])\<close> and \<open>sort_index()\<close>, lines 74-75. The sort is
  written as a stable one; the order it gives to rows with equal labels does not matter,
  since a frame with a repeated label makes the loop raise at its first lookup of it.
\<close>

definition dropna :: "bar list \<Rightarrow> bar list" where
  "dropna bars = filter (\<lambda>b. Close b \<noteq> None \<and> Volume b \<noteq> None) bars"

definition sort_index :: "bar list \<Rightarrow> bar list" where
  "sort_index bars = sort_key ts bars"

text \<open>\<open>five_min_signals\<close>, lines 73-125.\<close>

definition five_min_signals :: "bar list \<Rightarrow> cell option \<Rightarrow> error + event list" where
  "five_min_signals bars0 premarket_high =
     (let bars = sort_index (dropna bars0) in
      if bars = [] then Inr []
      else signal_loop (map ts bars) (rolling_vwap bars) (atr bars) premarket_high bars None [])"

subsection \<open>Premarket reference and date filter\<close>

text \<open>\<open>Series.max()\<close>: the maximum of the entries that are not NaN, NaN when there is none.\<close>

definition series_max :: "cell list \<Rightarrow> cell" where
  "series_max xs =
     (case List.map_filter id xs of [] \<Rightarrow> None | y # ys \<Rightarrow> Some (fold max ys y))"

definition is_premarket :: "int \<Rightarrow> int \<Rightarrow> int \<Rightarrow> bool" where
  "is_premarket market_open_hour market_open_minute t =
     (ts_hour t < market_open_hour
      \<or> (ts_hour t = market_open_hour \<and> ts_minute t < market_open_minute))"

text \<open>
  \<open>compute_premarket_high\<close>, lines 152-169. The result is Python's \<open>None\<close> (here
  \<open>None\<close>) or a float (here \<open>Some c\<close>).
\<close>

definition compute_premarket_high :: "bar list \<Rightarrow> int \<Rightarrow> int \<Rightarrow> cell option" where
  "compute_premarket_high df_5m market_open_hour market_open_minute =
     (if df_5m = [] then None
      else
        (let pm_df = filter (\<lambda>b. is_premarket market_open_hour market_open_minute (ts b)) df_5m
         in if pm_df = [] then None else Some (series_max (map High pm_df))))"

text \<open>\<open>filter_bars_for_date\<close>, lines 139-149.\<close>

definition filter_bars_for_date :: "bar list \<Rightarrow> int \<Rightarrow> bar list" where
  "filter_bars_for_date df_5m target_date =
     (if df_5m = [] then df_5m else filter (\<lambda>b. ts_date (ts b) = target_date) df_5m)"

subsection \<open>Replay driver\<close>

text \<open>
  A row of the daily history, the configuration values the driver reads, and the ranking
  record \<open>(ticker, gap_pct, prev_close, open_today)\<close>. The two fetches of the Bar Source
  are parameters of the driver; a fetch that raises returns \<open>Inl\<close>.
\<close>

record daily =
  d_ts :: int
  d_Open :: cell
  d_Close :: cell

record config =
  tickers :: "string list"
  top_n_gappers :: int
  gap_threshold_percent :: real

type_synonym gap_candidate = "string \<times> cell \<times> cell \<times> cell"

text \<open>
  \<open>(open_today - prev_close) / prev_close * 100.0\<close> on Python floats: a zero divisor
  raises \<open>ZeroDivisionError\<close>.
\<close>

definition gap_pct_of :: "cell \<Rightarrow> cell \<Rightarrow> error + cell" where
  "gap_pct_of open_today prev =
     (if prev = Some 0 then Inl ZeroDivisionError
      else Inr (cell_mul (cell_div (cell_sub open_today prev) prev) (Some 100)))"

text \<open>The search for the row of the target date, lines 217-222.\<close>

fun match_from :: "nat \<Rightarrow> int \<Rightarrow> daily list \<Rightarrow> nat option" where
  "match_from idx target_date [] = None"
| "match_from idx target_date (r # rs) =
     (if ts_date (d_ts r) = target_date then Some idx
      else match_from (Suc idx) target_date rs)"

text \<open>
  The body of the \<open>try\<close> block for one ticker once its daily history is fetched, lines
  200-234: \<open>Inr None\<close> when the ticker is skipped, \<open>Inr (Some r)\<close> when \<open>r\<close> is appended
  to \<open>results\<close>, \<open>Inl e\<close> when the body raises.
\<close>

definition gap_for ::
  "string \<Rightarrow> int option \<Rightarrow> daily list \<Rightarrow> error + gap_candidate option" where
  "gap_for t target_date d_hist =
     (if d_hist = [] then Inr None
      else
        (case target_date of
           None \<Rightarrow>
             (if length d_hist < 2 then Inr None
              else
                (let prev = d_Close (d_hist ! (length d_hist - 2));
                     open_today = d_Open (d_hist ! (length d_hist - 1))
                 in case gap_pct_of open_today prev of
                      Inl e \<Rightarrow> Inl e
                    | Inr gap_pct \<Rightarrow> Inr (Some (t, gap_pct, prev, open_today))))
         | Some d \<Rightarrow>
             (case match_from 0 d d_hist of
                None \<Rightarrow> Inr None
              | Some matched \<Rightarrow>
                  (if matched = 0 then Inr None
                   else
                     (let prev = d_Close (d_hist ! (matched - 1));
                          open_today = d_Open (d_hist ! matched)
                      in case gap_pct_of open_today prev of
                           Inl e \<Rightarrow> Inl e
                         | Inr gap_pct \<Rightarrow> Inr (Some (t, gap_pct, prev, open_today)))))))"

text \<open>
  The first loop, lines 196-236. The whole body is inside \<open>try ... except Exception\<close>:
  a raise of the fetch or of the computation leaves \<open>results\<close> as it is.
\<close>

fun compute_gaps ::
  "(string \<Rightarrow> error + daily list) \<Rightarrow> int option \<Rightarrow> string list \<Rightarrow> gap_candidate list" where
  "compute_gaps fetch_daily target_date [] = []"
| "compute_gaps fetch_daily target_date (t # rest) =
     (case (case fetch_daily t of Inl e \<Rightarrow> Inl e | Inr d_hist \<Rightarrow> gap_for t target_date d_hist) of
        Inl e \<Rightarrow> compute_gaps fetch_daily target_date rest
      | Inr None \<Rightarrow> compute_gaps fetch_daily target_date rest
      | Inr (Some r) \<Rightarrow> r # compute_gaps fetch_daily target_date rest)"

text \<open>
  Lines 239-240: the filter on the threshold, \<open>sorted(..., reverse=True)\<close> (stable, on
  the gap) and the slice \<open>results[:top_n]\<close>, whose bound may be negative. Every gap that
  passes the filter is a number, so the key of a NaN is never used.
\<close>

definition gap_of :: "gap_candidate \<Rightarrow> cell" where
  "gap_of r = fst (snd r)"

definition desc_key :: "gap_candidate \<Rightarrow> real" where
  "desc_key r = (case gap_of r of None \<Rightarrow> 0 | Some g \<Rightarrow> - g)"

definition py_slice_to :: "'a list \<Rightarrow> int \<Rightarrow> 'a list" where
  "py_slice_to xs n = (if 0 \<le> n then take (nat n) xs else take (length xs - nat (- n)) xs)"

definition top_gappers :: "real \<Rightarrow> int \<Rightarrow> gap_candidate list \<Rightarrow> gap_candidate list" where
  "top_gappers gap_threshold top_n results =
     py_slice_to (sort_key desc_key (filter (\<lambda>r. cell_le (Some gap_threshold) (gap_of r)) results))
                 top_n"

text \<open>
  The \<open>inplay\<close> table, keyed by ticker, holds the reason string and the last price of the
  latest write; the formatted price and the clock reading of a row are left out.
\<close>

type_synonym inplay = "string \<rightharpoonup> string \<times> cell"

fun kind_name :: "kind \<Rightarrow> string" where
  "kind_name ENTRY = ''ENTRY''"
| "kind_name EXIT = ''EXIT''"

fun reason_name :: "reason \<Rightarrow> string" where
  "reason_name break_premarket = ''break_premarket''"
| "reason_name vwap_reclaim = ''vwap_reclaim''"
| "reason_name vwap_loss = ''vwap_loss''"
| "reason_name long_wick = ''long_wick''"
| "reason_name atr_stop = ''atr_stop''"

definition upsert_inplay :: "inplay \<Rightarrow> string \<Rightarrow> string \<Rightarrow> cell \<Rightarrow> inplay" where
  "upsert_inplay db ticker reason_str last_price = db(ticker \<mapsto> (reason_str, last_price))"

definition emit_event :: "string \<Rightarrow> event \<Rightarrow> inplay \<Rightarrow> inplay" where
  "emit_event ticker ev db =
     (case ev of (t, k, r, price) \<Rightarrow>
        upsert_inplay db ticker (kind_name k @ '':'' @ reason_name r) price)"

text \<open>
  \<open>df_5m.index.normalize().unique()[-1].date()\<close>: the last of the distinct days in
  order of first appearance.
\<close>

definition last_day_of :: "bar list \<Rightarrow> int" where
  "last_day_of df_5m = last (rev (remdups (rev (map (\<lambda>b. ts_date (ts b)) df_5m))))"

text \<open>
  The second loop, lines 250-287. It has no \<open>try\<close>: a raise of the fetch or of
  \<open>five_min_signals\<close> leaves the function, with the table as written so far. The
  result is the table and the exception that ended the run, if any.
\<close>

fun replay_symbols ::
  "(string \<Rightarrow> error + bar list) \<Rightarrow> int option \<Rightarrow> gap_candidate list \<Rightarrow> inplay
     \<Rightarrow> inplay \<times> error option" where
  "replay_symbols fetch_5m target_date [] db = (db, None)"
| "replay_symbols fetch_5m target_date (r # rest) db =
     (let ticker = fst r in
      case fetch_5m ticker of
        Inl e \<Rightarrow> (db, Some e)
      | Inr df_5m \<Rightarrow>
          (if df_5m = [] then replay_symbols fetch_5m target_date rest db
           else
             (let day_bars =
                    (case target_date of
                       None \<Rightarrow> filter_bars_for_date df_5m (last_day_of df_5m)
                     | Some d \<Rightarrow> filter_bars_for_date df_5m d)
              in if day_bars = [] then replay_symbols fetch_5m target_date rest db
                 else
                   (let pm_high = compute_premarket_high df_5m 9 30
                    in case five_min_signals day_bars pm_high of
                         Inl e \<Rightarrow> (db, Some e)
                       | Inr events \<Rightarrow>
                           (if events = [] then replay_symbols fetch_5m target_date rest db
                            else replay_symbols fetch_5m target_date rest
                                   (fold (emit_event ticker) events db))))))"

text \<open>\<open>run_replay_for_date\<close>, lines 175-289.\<close>

definition run_replay_for_date ::
  "config \<Rightarrow> (string \<Rightarrow> error + daily list) \<Rightarrow> (string \<Rightarrow> error + bar list) \<Rightarrow> int option
     \<Rightarrow> inplay \<Rightarrow> inplay \<times> error option" where
  "run_replay_for_date cfg fetch_daily fetch_5m target_date db =
     (let results = compute_gaps fetch_daily target_date (tickers cfg);
          top = top_gappers (gap_threshold_percent cfg) (top_n_gappers cfg) results
      in if top = [] then (db, None)
         else replay_symbols fetch_5m target_date top db)"

section \<open>Definitions that follow the specification\<close>

text \<open>
  The true range and the ATR in the words of the specification: the true range of a bar
  is the largest of \<open>high - low\<close>, \<open>|high - prev_close|\<close> and \<open>|low - prev_close|\<close>, where
  \<open>prev_close\<close> is the close of the bar before, and the open of the bar itself for the
  first bar; the ATR is the mean of the true range over the trailing 14 bars, over as
  many bars as exist when there are fewer.
\<close>

definition spec_tr :: "cell \<Rightarrow> bar \<Rightarrow> cell" where
  "spec_tr pc b =
     np_max (np_max (cell_sub (High b) (Low b)) (cell_abs (cell_sub (High b) pc)))
            (cell_abs (cell_sub (Low b) pc))"

fun spec_true_range_from :: "cell \<Rightarrow> bar list \<Rightarrow> cell list" where
  "spec_true_range_from pc [] = []"
| "spec_true_range_from pc (b # bs) = spec_tr pc b # spec_true_range_from (Close b) bs"

definition spec_true_range :: "bar list \<Rightarrow> cell list" where
  "spec_true_range bars =
     (case bars of [] \<Rightarrow> [] | b # bs \<Rightarrow> spec_true_range_from (Open b) bars)"

definition spec_atr :: "bar list \<Rightarrow> cell list" where
  "spec_atr bars =
     map (\<lambda>i. window_mean 1 (drop (Suc i - 14) (take (Suc i) (spec_true_range bars))))
         [0..<length bars]"

section \<open>Example inputs\<close>

text \<open>A flat bar at 10 followed by a bar that gaps down to the range 7 to 8.\<close>

definition flat_bar :: bar where
  "flat_bar = \<lparr>ts = 0, Open = Some 10, High = Some 10, Low = Some 10, Close = Some 10,
                Volume = Some 100\<rparr>"

definition gap_down_bar :: bar where
  "gap_down_bar = \<lparr>ts = 300, Open = Some 8, High = Some 8, Low = Some 7, Close = Some (15 / 2),
                    Volume = Some 100\<rparr>"

text \<open>
  The invariants of a Bar in the data model of the specification: every column holds a
  number, the high is at least the larger and the low at most the smaller of open and
  close, and the volume is not negative.
\<close>

definition bar_valid :: "bar \<Rightarrow> bool" where
  "bar_valid b =
     (case (Open b, High b, Low b, Close b, Volume b) of
        (Some opn, Some h, Some l, Some c, Some v) \<Rightarrow> max opn c \<le> h \<and> l \<le> min opn c \<and> 0 \<le> v
      | _ \<Rightarrow> False)"

text \<open>
  The conditions of the first four rules of the detector in the words of the
  specification: the close exceeds the premarket reference; the close is above the VWAP
  of the bar and above the open; the close is below the VWAP of the bar. The fourth
  condition is \<open>detect_long_wick\<close>.
\<close>

definition breaks_premarket :: "cell option \<Rightarrow> bar \<Rightarrow> bool" where
  "breaks_premarket pm row = (case pm of None \<Rightarrow> False | Some p \<Rightarrow> cell_less p (Close row))"

definition reclaims_vwap :: "bar \<Rightarrow> cell \<Rightarrow> bool" where
  "reclaims_vwap row v = (cell_less v (Close row) \<and> cell_less (Open row) (Close row))"

definition loses_vwap :: "bar \<Rightarrow> cell \<Rightarrow> bool" where
  "loses_vwap row v = cell_less (Close row) v"

text \<open>The components of an event, and the events that carry a given timestamp.\<close>

definition ev_kind :: "event \<Rightarrow> kind" where
  "ev_kind e = fst (snd e)"

definition ev_reason :: "event \<Rightarrow> reason" where
  "ev_reason e = fst (snd (snd e))"

definition events_at :: "int \<Rightarrow> event list \<Rightarrow> event list" where
  "events_at t events = filter (\<lambda>e. fst e = t) events"

text \<open>
  The loop over the rows of a frame whose labels are unique, where the lookup by label
  selects the value at the position of the row: the rows come with their VWAP and ATR,
  and the result is the list of the events appended.
\<close>

fun signal_rows :: "cell option \<Rightarrow> (bar \<times> cell \<times> cell) list \<Rightarrow> cell option \<Rightarrow> event list" where
  "signal_rows pm [] entry_price = []"
| "signal_rows pm ((row, cur_vwap, cur_atr) # rest) entry_price =
     (case signal_step pm row cur_vwap cur_atr entry_price of
        (ev, entry_price') \<Rightarrow>
          (case ev of None \<Rightarrow> [] | Some e \<Rightarrow> [e]) @ signal_rows pm rest entry_price')"

text \<open>
  Further example bars: a bar without volume that closes at 100, a flat bar at 40, a bar
  whose high is below its low, and a bar with a long upper wick that closes at 12, with
  and without volume.
\<close>

definition silent_bar :: bar where
  "silent_bar = \<lparr>ts = 0, Open = Some 100, High = Some 100, Low = Some 100, Close = Some 100,
                  Volume = Some 0\<rparr>"

definition drop_bar :: bar where
  "drop_bar = \<lparr>ts = 300, Open = Some 40, High = Some 40, Low = Some 40, Close = Some 40,
                Volume = Some 1\<rparr>"

definition inverted_bar :: bar where
  "inverted_bar = \<lparr>ts = 600, Open = Some 5, High = Some 1, Low = Some 2, Close = Some 5,
                    Volume = Some 10\<rparr>"

definition wick_bar :: bar where
  "wick_bar = \<lparr>ts = 900, Open = Some 11, High = Some 20, Low = Some 11, Close = Some 12,
                Volume = Some 10\<rparr>"

definition silent_wick_bar :: bar where
  "silent_wick_bar = \<lparr>ts = 0, Open = Some 11, High = Some 20, Low = Some 11, Close = Some 12,
                       Volume = Some 0\<rparr>"

text \<open>
  Bars for the premarket reference: one at 09:30:00 of the first day, one at 09:29:00 of
  the first day and one at 01:00:00 of the second day.
\<close>

definition open_bar :: bar where
  "open_bar = \<lparr>ts = 34200, Open = Some 500, High = Some 500, Low = Some 500, Close = Some 500,
                Volume = Some 1\<rparr>"

definition early_bar :: bar where
  "early_bar = \<lparr>ts = 34140, Open = Some 100, High = Some 150, Low = Some 100, Close = Some 100,
                 Volume = Some 1\<rparr>"

definition next_day_bar :: bar where
  "next_day_bar = \<lparr>ts = 90000, Open = Some 200, High = Some 200, Low = Some 200, Close = Some 200,
                    Volume = Some 1\<rparr>"

text \<open>
  A Bar Source for the driver. The daily history has day 0 and day 1: \<open>AAA\<close> opens day 1
  at 120 after a close of 100, \<open>BBB\<close> at 110 after 100, \<open>CCC\<close> at 50 after 50; the daily
  fetch of any other ticker raises. The intraday fetch of \<open>AAA\<close> raises, that of \<open>BBB\<close>
  returns two bars of day 1, at 09:30 and 09:35, and that of any other ticker is empty.
\<close>

definition ex_daily :: "string \<Rightarrow> error + daily list" where
  "ex_daily t =
     (if t = ''AAA'' then
        Inr [\<lparr>d_ts = 0, d_Open = Some 100, d_Close = Some 100\<rparr>,
             \<lparr>d_ts = 86400, d_Open = Some 120, d_Close = Some 121\<rparr>]
      else if t = ''BBB'' then
        Inr [\<lparr>d_ts = 0, d_Open = Some 99, d_Close = Some 100\<rparr>,
             \<lparr>d_ts = 86400, d_Open = Some 110, d_Close = Some 111\<rparr>]
      else if t = ''CCC'' then
        Inr [\<lparr>d_ts = 0, d_Open = Some 50, d_Close = Some 50\<rparr>,
             \<lparr>d_ts = 86400, d_Open = Some 50, d_Close = Some 51\<rparr>]
      else Inl FetchError)"

definition ex_5m :: "string \<Rightarrow> error + bar list" where
  "ex_5m t =
     (if t = ''AAA'' then Inl FetchError
      else if t = ''BBB'' then
        Inr [\<lparr>ts = 120600, Open = Some 10, High = Some 10, Low = Some 10, Close = Some 10,
              Volume = Some 100\<rparr>,
             \<lparr>ts = 120900, Open = Some 8, High = Some 8, Low = Some 7, Close = Some (15 / 2),
              Volume = Some 100\<rparr>]
      else Inr [])"

definition ex_cfg :: "string list \<Rightarrow> config" where
  "ex_cfg symbols = \<lparr>tickers = symbols, top_n_gappers = 10, gap_threshold_percent = 1 / 10\<rparr>"

section \<open>Basic facts about the series operations\<close>

lemma length_cumsum_from [simp]: "length (cumsum_from acc xs) = length xs"
  by (induction acc xs rule: cumsum_from.induct) auto

lemma length_ffill_from [simp]: "length (ffill_from p xs) = length xs"
  by (induction p xs rule: ffill_from.induct) auto

lemma length_rolling_from [simp]: "length (rolling_from w mp seen xs) = length xs"
  by (induction xs arbitrary: seen) auto

lemma length_shift1 [simp]: "length (shift1 xs) = length xs"
  by (simp add: shift1_def)

lemma length_prev_close [simp]: "length (prev_close bars) = length bars"
  by (simp add: prev_close_def fillna_with_def)

lemma length_true_range [simp]: "length (true_range bars) = length bars"
  by (simp add: true_range_def np_maximum_def)

lemma length_atr [simp]: "length (atr bars) = length bars"
  by (simp add: atr_def ffill_def rolling_mean_def)

lemma length_rolling_vwap [simp]: "length (rolling_vwap bars) = length bars"
  by (simp add: rolling_vwap_def Let_def ffill_def cumsum_def replace_zero_def)

lemma dropna_append: "dropna (xs @ ys) = dropna xs @ dropna ys"
  by (simp add: dropna_def)

text \<open>A frame whose labels are in order is left as it is by \<open>sort_index\<close>.\<close>

lemma prepare_sorted:
  "sorted (map ts bars) \<Longrightarrow> sort_index (dropna bars) = dropna bars"
  unfolding sort_index_def dropna_def
  by (rule sort_key_id_if_sorted) (rule sorted_filter)

section \<open>Indicator engine: true range and ATR\<close>

text \<open>
  What the indicator step computes: the true range is the larger of \<open>high - low\<close> and
  \<open>|high - prev_close|\<close>, and the rolling mean at a position is the mean of the window
  that ends there.
\<close>

lemma true_range_two_operands:
  "true_range bars
     = map2 (\<lambda>b pc. np_max (cell_sub (High b) (Low b)) (cell_abs (cell_sub (High b) pc)))
         bars (prev_close bars)"
  by (rule nth_equalityI) (simp_all add: true_range_def np_maximum_def)

lemma rolling_from_nth:
  "i < length xs
   \<Longrightarrow> rolling_from w mp seen xs ! i
       = window_mean mp (drop (Suc (length seen + i) - w) (seen @ take (Suc i) xs))"
proof (induction xs arbitrary: seen i)
  case Nil
  then show ?case by simp
next
  case (Cons x xs)
  show ?case
  proof (cases i)
    case 0
    then show ?thesis by simp
  next
    case (Suc i')
    with Cons.prems have "i' < length xs" by simp
    from Cons.IH [OF this, of "seen @ [x]"] Suc show ?thesis by simp
  qed
qed

lemma rolling_mean_nth:
  "i < length xs
   \<Longrightarrow> rolling_mean w mp xs ! i = window_mean mp (drop (Suc i - w) (take (Suc i) xs))"
  using rolling_from_nth [of i xs w mp "[]"] by (simp add: rolling_mean_def)

text \<open>
  Claim C1. The true range of the indicator step is the largest of \<open>high - low\<close>,
  \<open>|high - prev_close|\<close> and \<open>|low - prev_close|\<close>, and the ATR is its trailing mean over
  14 bars. The source passes the three series to \<open>np.maximum\<close>, which takes two operands:
  the third series is the output buffer and never enters the maximum. On the bar that
  gaps down from a close of 10 to the range 7 to 8 the source computes a true range of
  2 (the distance from the high to the previous close) where the specified true range
  is 3 (the distance from the low), and the ATR of that bar is 1 instead of 3/2.
\<close>

theorem true_range_omits_low_distance:
  "true_range [flat_bar, gap_down_bar] = [Some 0, Some 2]
   \<and> spec_true_range [flat_bar, gap_down_bar] = [Some 0, Some 3]
   \<and> atr [flat_bar, gap_down_bar] = [Some 0, Some 1]
   \<and> spec_atr [flat_bar, gap_down_bar] = [Some 0, Some (3 / 2)]"
  by code_simp

section \<open>Causality of the ATR\<close>

text \<open>
  Each step of the indicator pipeline maps a frame extended at its end to an extension
  of its result.
\<close>

lemma butlast_prefix: "xs \<noteq> [] \<Longrightarrow> \<exists>r. butlast (xs @ ys) = butlast xs @ r"
proof (cases "ys = []")
  case True
  then show ?thesis by simp
next
  case False
  assume "xs \<noteq> []"
  then have "butlast xs @ [last xs] = xs" by simp
  then have "xs @ butlast ys = butlast xs @ (last xs # butlast ys)"
    by (metis append_Cons append_Nil append_assoc)
  moreover have "butlast (xs @ ys) = xs @ butlast ys"
    using False by (simp add: butlast_append)
  ultimately show ?thesis by (intro exI [of _ "last xs # butlast ys"]) simp
qed

lemma shift1_prefix: "\<exists>r. shift1 (xs @ ys) = shift1 xs @ r"
proof (cases "xs = []")
  case True
  then show ?thesis by (simp add: shift1_def)
next
  case False
  then obtain r where "butlast (xs @ ys) = butlast xs @ r"
    using butlast_prefix by blast
  with False show ?thesis by (simp add: shift1_def)
qed

lemma ffill_from_prefix: "\<exists>r. ffill_from p (xs @ ys) = ffill_from p xs @ r"
  by (induction p xs rule: ffill_from.induct) auto

lemma rolling_from_append:
  "rolling_from w mp seen (xs @ ys)
     = rolling_from w mp seen xs @ rolling_from w mp (seen @ xs) ys"
  by (induction xs arbitrary: seen) auto

lemma prev_close_prefix: "\<exists>r. prev_close (xs @ ys) = prev_close xs @ r"
proof -
  obtain r where r: "shift1 (map Close xs @ map Close ys) = shift1 (map Close xs) @ r"
    using shift1_prefix by blast
  have "length r = length ys"
    using arg_cong [OF r, of length] by simp
  then show ?thesis
    by (simp add: prev_close_def fillna_with_def r)
qed

lemma true_range_prefix: "\<exists>r. true_range (xs @ ys) = true_range xs @ r"
proof -
  obtain r where r: "prev_close (xs @ ys) = prev_close xs @ r"
    using prev_close_prefix by blast
  have "length r = length ys"
    using arg_cong [OF r, of length] by simp
  then show ?thesis
    by (simp add: true_range_def np_maximum_def r)
qed

lemma atr_prefix: "\<exists>r. atr (xs @ ys) = atr xs @ r"
proof -
  obtain r where r: "true_range (xs @ ys) = true_range xs @ r"
    using true_range_prefix by blast
  show ?thesis
    unfolding atr_def ffill_def rolling_mean_def r rolling_from_append
    by (rule ffill_from_prefix)
qed

lemma atr_nth_prefix: "i < length xs \<Longrightarrow> atr (xs @ ys) ! i = atr xs ! i"
proof -
  assume i: "i < length xs"
  obtain r where "atr (xs @ ys) = atr xs @ r"
    using atr_prefix by blast
  then show ?thesis using i by (simp add: nth_append)
qed

text \<open>
  Claim C6. The ATR is causal: two frames in timestamp order that share the rows \<open>xs\<close>
  and continue with arbitrary rows \<open>ys\<close> and \<open>zs\<close> have the same ATR at every position of
  the shared part, as the detector computes it (after \<open>dropna\<close> and \<open>sort_index\<close>).
\<close>

theorem atr_causal:
  assumes "sorted (map ts (xs @ ys))" and "sorted (map ts (xs @ zs))"
    and "i < length (dropna xs)"
  shows "atr (sort_index (dropna (xs @ ys))) ! i = atr (sort_index (dropna (xs @ zs))) ! i"
proof -
  have "sort_index (dropna (xs @ ys)) = dropna xs @ dropna ys"
    using prepare_sorted [OF assms(1)] by (simp only: dropna_append)
  moreover have "sort_index (dropna (xs @ zs)) = dropna xs @ dropna zs"
    using prepare_sorted [OF assms(2)] by (simp only: dropna_append)
  ultimately show ?thesis
    using assms(3) by (simp only: atr_nth_prefix)
qed

theorem atr_causal_witness:
  "sorted (map ts ([flat_bar] @ [gap_down_bar])) \<and> sorted (map ts ([flat_bar] @ [wick_bar]))
   \<and> 0 < length (dropna [flat_bar])
   \<and> atr (sort_index (dropna ([flat_bar] @ [gap_down_bar]))) ! 0
     = atr (sort_index (dropna ([flat_bar] @ [wick_bar]))) ! 0"
proof -
  have h1: "sorted (map ts ([flat_bar] @ [gap_down_bar]))"
    by (simp add: flat_bar_def gap_down_bar_def)
  have h2: "sorted (map ts ([flat_bar] @ [wick_bar]))"
    by (simp add: flat_bar_def wick_bar_def)
  have h3: "0 < length (dropna [flat_bar])" by (simp add: dropna_def flat_bar_def)
  show ?thesis using h1 h2 h3 atr_causal [OF h1 h2 h3] by blast
qed

section \<open>Bounds of the rolling VWAP\<close>

lemma cumsum_from_prefix: "\<exists>r. cumsum_from acc (xs @ ys) = cumsum_from acc xs @ r"
  by (induction acc xs rule: cumsum_from.induct) auto

lemma rolling_vwap_prefix: "\<exists>r. rolling_vwap (xs @ ys) = rolling_vwap xs @ r"
proof -
  obtain r1 where r1:
    "cumsum_from 0 (map (\<lambda>b. cell_mul (Close b) (Volume b)) xs @ map (\<lambda>b. cell_mul (Close b) (Volume b)) ys)
       = cumsum_from 0 (map (\<lambda>b. cell_mul (Close b) (Volume b)) xs) @ r1"
    using cumsum_from_prefix by blast
  obtain r2 where r2:
    "cumsum_from 0 (map Volume xs @ map Volume ys) = cumsum_from 0 (map Volume xs) @ r2"
    using cumsum_from_prefix by blast
  show ?thesis
    by (simp add: rolling_vwap_def cumsum_def replace_zero_def ffill_def r1 r2 ffill_from_prefix)
qed

lemma rolling_vwap_nth_take:
  assumes "i < length bars"
  shows "rolling_vwap bars ! i = rolling_vwap (take (Suc i) bars) ! i"
proof -
  obtain r where "rolling_vwap (take (Suc i) bars @ drop (Suc i) bars)
      = rolling_vwap (take (Suc i) bars) @ r"
    using rolling_vwap_prefix by blast
  then show ?thesis using assms by (simp add: nth_append)
qed



lemma map_filter_mem: "x \<in> set xs \<Longrightarrow> f x = Some y \<Longrightarrow> y \<in> set (List.map_filter f xs)"
  by (induction xs) (auto split: option.splits)



section \<open>The loop of the detector\<close>

text \<open>
  When the labels of the frame are unique every lookup by label succeeds and the loop is
  \<open>signal_rows\<close>; when a label occurs twice the conversion of the lookup to a float
  raises.
\<close>

subsection \<open>Lookups by label\<close>

lemma filter_zip_fst_notin:
  "t \<notin> set idx \<Longrightarrow> filter (\<lambda>kv. fst kv = t) (zip idx s) = []"
  by (auto simp: filter_empty_conv dest: set_zip_leftD)

lemma filter_zip_distinct:
  "distinct idx \<Longrightarrow> length s = length idx \<Longrightarrow> k < length idx
   \<Longrightarrow> filter (\<lambda>kv. fst kv = idx ! k) (zip idx s) = [(idx ! k, s ! k)]"
proof (induction idx arbitrary: s k)
  case Nil
  then show ?case by simp
next
  case (Cons a idx)
  then obtain b s' where s: "s = b # s'" by (cases s) auto
  show ?case
  proof (cases k)
    case 0
    with Cons.prems s show ?thesis by (simp add: filter_zip_fst_notin)
  next
    case (Suc k')
    with Cons.prems have "idx ! k' \<noteq> a" by auto
    with Cons.prems Cons.IH [of s' k'] s Suc show ?thesis by simp
  qed
qed

lemma loc_float_distinct:
  "distinct idx \<Longrightarrow> length s = length idx \<Longrightarrow> k < length idx
   \<Longrightarrow> loc_float idx s (idx ! k) = Inr (s ! k)"
  by (simp add: loc_float_def filter_zip_distinct)

lemma length_filter_zip_fst:
  "length s = length idx
   \<Longrightarrow> length (filter (\<lambda>kv. fst kv = t) (zip idx s)) = length (filter (\<lambda>k. k = t) idx)"
proof (induction idx arbitrary: s)
  case Nil
  then show ?case by simp
next
  case (Cons a idx)
  then obtain b s' where "s = b # s'" by (cases s) auto
  with Cons show ?case by simp
qed

lemma loc_float_duplicate:
  assumes "length s = length idx" and "2 \<le> length (filter (\<lambda>k. k = t) idx)"
  shows "loc_float idx s t = Inl TypeError"
proof -
  have "2 \<le> length (map snd (filter (\<lambda>kv. fst kv = t) (zip idx s)))"
    using assms by (simp add: length_filter_zip_fst)
  then obtain x y r where "map snd (filter (\<lambda>kv. fst kv = t) (zip idx s)) = x # y # r"
    by (cases "map snd (filter (\<lambda>kv. fst kv = t) (zip idx s))" rule: list.exhaust[case_names Nil Cons])
       (auto simp: Suc_le_eq neq_Nil_conv)
  then show ?thesis by (simp add: loc_float_def)
qed

lemma not_distinct_duplicate:
  "\<not> distinct idx \<Longrightarrow> \<exists>t\<in>set idx. 2 \<le> length (filter (\<lambda>k. k = t) idx)"
proof (induction idx)
  case Nil
  then show ?case by simp
next
  case (Cons a idx)
  show ?case
  proof (cases "a \<in> set idx")
    case True
    then have "filter (\<lambda>k. k = a) idx \<noteq> []" by (auto simp: filter_empty_conv)
    then have "1 \<le> length (filter (\<lambda>k. k = a) idx)" by (simp add: Suc_le_eq)
    then show ?thesis by auto
  next
    case False
    with Cons.prems have "\<not> distinct idx" by simp
    then obtain t where t: "t \<in> set idx" "2 \<le> length (filter (\<lambda>k. k = t) idx)"
      using Cons.IH by blast
    then have "2 \<le> length (filter (\<lambda>k. k = t) (a # idx))" by simp
    with t(1) show ?thesis by (intro bexI [of _ t]) simp_all
  qed
qed

subsection \<open>The loop\<close>

lemma signal_loop_distinct:
  assumes "distinct (map ts bars)" and "length vw = length bars" and "length ats = length bars"
  shows "k \<le> length bars \<Longrightarrow>
    signal_loop (map ts bars) vw ats pm (drop k bars) entry evs
      = Inr (evs @ signal_rows pm (drop k (zip bars (zip vw ats))) entry)"
proof (induction "length bars - k" arbitrary: k entry evs)
  case 0
  then show ?case by simp
next
  case (Suc n)
  then have k: "k < length bars" by simp
  have d: "drop k bars = bars ! k # drop (Suc k) bars"
    using k by (simp add: Cons_nth_drop_Suc)
  have dz: "drop k (zip bars (zip vw ats)) = (bars ! k, vw ! k, ats ! k) # drop (Suc k) (zip bars (zip vw ats))"
    using k assms(2,3) by (simp flip: Cons_nth_drop_Suc)
  have t: "ts (bars ! k) = map ts bars ! k" using k by simp
  have l1: "loc_float (map ts bars) vw (ts (bars ! k)) = Inr (vw ! k)"
    unfolding t using assms k by (intro loc_float_distinct) simp_all
  have l2: "loc_float (map ts bars) ats (ts (bars ! k)) = Inr (ats ! k)"
    unfolding t using assms k by (intro loc_float_distinct) simp_all
  have m: "ts (bars ! k) \<in> set (map ts bars)" using k by simp
  obtain ev entry' where st: "signal_step pm (bars ! k) (vw ! k) (ats ! k) entry = (ev, entry')"
    by (cases "signal_step pm (bars ! k) (vw ! k) (ats ! k) entry")
  have "n = length bars - Suc k" using Suc.hyps(2) by simp
  then have IH: "signal_loop (map ts bars) vw ats pm (drop (Suc k) bars) entry'
       (evs @ (case ev of None \<Rightarrow> [] | Some e \<Rightarrow> [e]))
      = Inr ((evs @ (case ev of None \<Rightarrow> [] | Some e \<Rightarrow> [e]))
              @ signal_rows pm (drop (Suc k) (zip bars (zip vw ats))) entry')"
    using Suc.hyps(1) k by simp
  show ?case
    unfolding d dz using l1 l2 m st IH by simp
qed

lemma loc_float_unique:
  assumes "length s = length idx" and "length (filter (\<lambda>k. k = t) idx) = 1"
  shows "\<exists>v. loc_float idx s t = Inr v"
proof -
  have "length (map snd (filter (\<lambda>kv. fst kv = t) (zip idx s))) = 1"
    using assms by (simp add: length_filter_zip_fst)
  then obtain x where "map snd (filter (\<lambda>kv. fst kv = t) (zip idx s)) = [x]"
    by (cases "map snd (filter (\<lambda>kv. fst kv = t) (zip idx s))") auto
  then show ?thesis by (simp add: loc_float_def)
qed

lemma signal_loop_duplicate:
  assumes "length vw = length idx" and "length ats = length idx"
  shows "ts ` set rows \<subseteq> set idx
    \<Longrightarrow> \<exists>r\<in>set rows. 2 \<le> length (filter (\<lambda>k. k = ts r) idx)
    \<Longrightarrow> signal_loop idx vw ats pm rows entry evs = Inl TypeError"
proof (induction rows arbitrary: entry evs)
  case Nil
  then show ?case by simp
next
  case (Cons row rows)
  show ?case
  proof (cases "2 \<le> length (filter (\<lambda>k. k = ts row) idx)")
    case True
    then show ?thesis
      using loc_float_duplicate [OF assms(1) True] by simp
  next
    case False
    have m: "ts row \<in> set idx" using Cons.prems(1) by simp
    then have "filter (\<lambda>k. k = ts row) idx \<noteq> []" by (auto simp: filter_empty_conv)
    then have "length (filter (\<lambda>k. k = ts row) idx) \<noteq> 0" by simp
    with False have one: "length (filter (\<lambda>k. k = ts row) idx) = 1" by arith
    obtain v where v: "loc_float idx vw (ts row) = Inr v"
      using loc_float_unique [OF assms(1) one] by blast
    obtain a where a: "loc_float idx ats (ts row) = Inr a"
      using loc_float_unique [OF assms(2) one] by blast
    obtain ev entry' where st: "signal_step pm row v a entry = (ev, entry')"
      by (cases "signal_step pm row v a entry")
    have "ts ` set rows \<subseteq> set idx" using Cons.prems(1) by simp
    moreover have "\<exists>r\<in>set rows. 2 \<le> length (filter (\<lambda>k. k = ts r) idx)"
      using Cons.prems(2) False by auto
    ultimately have "signal_loop idx vw ats pm rows entry'
        (evs @ (case ev of None \<Rightarrow> [] | Some e \<Rightarrow> [e])) = Inl TypeError"
      by (rule Cons.IH)
    then show ?thesis using v a m st by simp
  qed
qed

lemma distinct_map_sort_key: "distinct (map f (sort_key f xs)) = distinct (map f xs)"
  by (induction xs) (simp_all add: distinct_insort_key)

lemma five_min_signals_distinct:
  assumes "distinct (map ts (dropna bars0))"
  shows "five_min_signals bars0 pm =
    Inr (signal_rows pm (zip (sort_index (dropna bars0))
           (zip (rolling_vwap (sort_index (dropna bars0))) (atr (sort_index (dropna bars0))))) None)"
proof -
  let ?bars = "sort_index (dropna bars0)"
  have d: "distinct (map ts ?bars)"
    using assms by (simp add: sort_index_def distinct_map_sort_key)
  have "signal_loop (map ts ?bars) (rolling_vwap ?bars) (atr ?bars) pm (drop 0 ?bars) None []
      = Inr ([] @ signal_rows pm (drop 0 (zip ?bars (zip (rolling_vwap ?bars) (atr ?bars)))) None)"
    by (rule signal_loop_distinct [OF d]) simp_all
  then show ?thesis
    by (cases "?bars = []") (simp_all add: five_min_signals_def Let_def)
qed

lemma five_min_signals_duplicate:
  assumes "\<not> distinct (map ts (dropna bars0))"
  shows "five_min_signals bars0 pm = Inl TypeError"
proof -
  let ?bars = "sort_index (dropna bars0)"
  have d: "\<not> distinct (map ts ?bars)"
    using assms by (simp add: sort_index_def distinct_map_sort_key)
  then have ne: "?bars \<noteq> []" by auto
  obtain t where "t \<in> set (map ts ?bars)" "2 \<le> length (filter (\<lambda>k. k = t) (map ts ?bars))"
    using not_distinct_duplicate [OF d] by blast
  then have "\<exists>r\<in>set ?bars. 2 \<le> length (filter (\<lambda>k. k = ts r) (map ts ?bars))"
    by auto
  then have "signal_loop (map ts ?bars) (rolling_vwap ?bars) (atr ?bars) pm ?bars None []
      = Inl TypeError"
    by (intro signal_loop_duplicate) simp_all
  then show ?thesis using ne by (simp add: five_min_signals_def Let_def)
qed

section \<open>Rule priority of the detector\<close>

subsection \<open>One step\<close>

lemma breaks_premarket_case:
  "(case pm of None \<Rightarrow> False | Some p \<Rightarrow> cell_less p (Close row)) = breaks_premarket pm row"
  by (simp add: breaks_premarket_def)

lemma signal_step_event:
  "fst (signal_step pm row v a st) =
     (if breaks_premarket pm row then Some (ts row, ENTRY, break_premarket, Close row)
      else if reclaims_vwap row v then Some (ts row, ENTRY, vwap_reclaim, Close row)
      else if loses_vwap row v then Some (ts row, EXIT, vwap_loss, Close row)
      else if detect_long_wick row then Some (ts row, EXIT, long_wick, Close row)
      else if (\<exists>e. st = Some e \<and> cell_le (Close row) (cell_sub e (cell_mul (Some (3 / 2)) a)))
      then Some (ts row, EXIT, atr_stop, Close row)
      else None)"
  by (cases st)
     (simp_all add: signal_step_def breaks_premarket_case reclaims_vwap_def loses_vwap_def Let_def)

lemma signal_step_state:
  "snd (signal_step pm row v a st) =
     (case fst (signal_step pm row v a st) of
        None \<Rightarrow> st
      | Some e \<Rightarrow> if ev_kind e = ENTRY then Some (Close row) else None)"
  by (cases st)
     (simp_all add: signal_step_def breaks_premarket_case Let_def ev_kind_def)

lemma signal_step_ts: "fst (signal_step pm row v a st) = Some e \<Longrightarrow> fst e = ts row"
  by (auto simp: signal_step_event split: if_splits)

lemma signal_step_kind:
  "fst (signal_step pm row v a st) = Some e
   \<Longrightarrow> ev_kind e = (if ev_reason e = break_premarket \<or> ev_reason e = vwap_reclaim then ENTRY else EXIT)"
  by (auto simp: signal_step_event ev_kind_def ev_reason_def split: if_splits)

lemma signal_step_atr_stop:
  "fst (signal_step pm row v a st) = Some e \<Longrightarrow> ev_reason e = atr_stop \<Longrightarrow> st \<noteq> None"
  by (auto simp: signal_step_event ev_reason_def split: if_splits)

lemma signal_step_event_list:
  "(case fst (signal_step pm row v a st) of None \<Rightarrow> [] | Some e \<Rightarrow> [e]) =
     (if breaks_premarket pm row then [(ts row, ENTRY, break_premarket, Close row)]
      else if reclaims_vwap row v then [(ts row, ENTRY, vwap_reclaim, Close row)]
      else if loses_vwap row v then [(ts row, EXIT, vwap_loss, Close row)]
      else if detect_long_wick row then [(ts row, EXIT, long_wick, Close row)]
      else if (\<exists>e. st = Some e \<and> cell_le (Close row) (cell_sub e (cell_mul (Some (3 / 2)) a)))
      then [(ts row, EXIT, atr_stop, Close row)]
      else [])"
  by (auto simp: signal_step_event)

subsection \<open>The rows\<close>

lemma signal_rows_Cons:
  "signal_rows pm (r # rest) st =
     (case fst (signal_step pm (fst r) (fst (snd r)) (snd (snd r)) st) of None \<Rightarrow> [] | Some e \<Rightarrow> [e])
       @ signal_rows pm rest (snd (signal_step pm (fst r) (fst (snd r)) (snd (snd r)) st))"
  by (cases r) (auto split: prod.splits)

lemma signal_rows_ts: "e \<in> set (signal_rows pm rws st) \<Longrightarrow> fst e \<in> set (map (\<lambda>r. ts (fst r)) rws)"
proof (induction rws arbitrary: st)
  case Nil
  then show ?case by simp
next
  case (Cons r rws)
  let ?ev = "fst (signal_step pm (fst r) (fst (snd r)) (snd (snd r)) st)"
  let ?st = "snd (signal_step pm (fst r) (fst (snd r)) (snd (snd r)) st)"
  from Cons.prems have "?ev = Some e \<or> e \<in> set (signal_rows pm rws ?st)"
    by (auto simp: signal_rows_Cons simp del: signal_rows.simps split: option.splits)
  then show ?case
  proof
    assume "?ev = Some e"
    then have "fst e = ts (fst r)" by (rule signal_step_ts)
    then show ?thesis by simp
  next
    assume "e \<in> set (signal_rows pm rws ?st)"
    then have "fst e \<in> set (map (\<lambda>r. ts (fst r)) rws)" by (rule Cons.IH)
    then show ?thesis by simp
  qed
qed

lemma signal_rows_length: "length (signal_rows pm rws st) \<le> length rws"
proof (induction rws arbitrary: st)
  case Nil
  then show ?case by simp
next
  case (Cons r rws)
  have "length (signal_rows pm rws (snd (signal_step pm (fst r) (fst (snd r)) (snd (snd r)) st)))
      \<le> length rws"
    by (rule Cons.IH)
  then show ?case
    by (simp add: signal_rows_Cons del: signal_rows.simps split: option.splits)
qed

lemma events_at_other:
  "t \<notin> set (map (\<lambda>r. ts (fst r)) rws) \<Longrightarrow> events_at t (signal_rows pm rws st) = []"
  unfolding events_at_def filter_empty_conv using signal_rows_ts by blast

lemma events_at_step:
  "events_at t (case fst (signal_step pm row v a st) of None \<Rightarrow> [] | Some e \<Rightarrow> [e])
     = (if t = ts row then (case fst (signal_step pm row v a st) of None \<Rightarrow> [] | Some e \<Rightarrow> [e])
        else [])"
proof (cases "fst (signal_step pm row v a st)")
  case None
  then show ?thesis by (simp add: events_at_def)
next
  case (Some e)
  then have "fst e = ts row" by (rule signal_step_ts)
  with Some show ?thesis by (auto simp: events_at_def)
qed

lemma events_at_append: "events_at t (xs @ ys) = events_at t xs @ events_at t ys"
  by (simp add: events_at_def)

lemma events_at_signal_rows:
  assumes "distinct (map (\<lambda>r. ts (fst r)) rws)" and "i < length rws"
  shows "\<exists>st'. events_at (ts (fst (rws ! i))) (signal_rows pm rws st)
    = (case fst (signal_step pm (fst (rws ! i)) (fst (snd (rws ! i))) (snd (snd (rws ! i))) st') of
         None \<Rightarrow> [] | Some e \<Rightarrow> [e])"
  using assms
proof (induction rws arbitrary: i st)
  case Nil
  then show ?case by simp
next
  case (Cons r rws)
  let ?ev = "fst (signal_step pm (fst r) (fst (snd r)) (snd (snd r)) st)"
  let ?st = "snd (signal_step pm (fst r) (fst (snd r)) (snd (snd r)) st)"
  have d: "distinct (map (\<lambda>r. ts (fst r)) rws)"
    and n: "ts (fst r) \<notin> set (map (\<lambda>r. ts (fst r)) rws)"
    using Cons.prems(1) by simp_all
  show ?case
  proof (cases i)
    case 0
    have "events_at (ts (fst r)) (signal_rows pm rws ?st) = []"
      using n by (rule events_at_other)
    then have "events_at (ts (fst r)) (signal_rows pm (r # rws) st)
        = (case ?ev of None \<Rightarrow> [] | Some e \<Rightarrow> [e])"
      by (simp add: signal_rows_Cons events_at_append events_at_step del: signal_rows.simps)
    with 0 show ?thesis by auto
  next
    case (Suc i')
    with Cons.prems have i': "i' < length rws" by simp
    then have "ts (fst (rws ! i')) \<in> set (map (\<lambda>r. ts (fst r)) rws)"
      by (metis (mono_tags, lifting) length_map nth_map nth_mem)
    then have ne: "ts (fst (rws ! i')) \<noteq> ts (fst r)" using n by metis
    obtain st' where "events_at (ts (fst (rws ! i'))) (signal_rows pm rws ?st)
      = (case fst (signal_step pm (fst (rws ! i')) (fst (snd (rws ! i'))) (snd (snd (rws ! i'))) st') of
         None \<Rightarrow> [] | Some e \<Rightarrow> [e])"
      using Cons.IH [OF d i'] by blast
    moreover have "events_at (ts (fst (rws ! i'))) (signal_rows pm (r # rws) st)
        = events_at (ts (fst (rws ! i'))) (signal_rows pm rws ?st)"
      using ne
      by (simp add: signal_rows_Cons events_at_append events_at_step del: signal_rows.simps)
    ultimately show ?thesis using Suc by auto
  qed
qed

subsection \<open>The run\<close>

lemma run_events_at:
  assumes run: "five_min_signals bars0 pm = Inr events"
    and bars: "bars = sort_index (dropna bars0)" and i: "i < length bars"
  shows "\<exists>st. events_at (ts (bars ! i)) events
    = (case fst (signal_step pm (bars ! i) (rolling_vwap bars ! i) (atr bars ! i) st) of
         None \<Rightarrow> [] | Some e \<Rightarrow> [e])"
proof -
  let ?rws = "zip bars (zip (rolling_vwap bars) (atr bars))"
  have d0: "distinct (map ts (dropna bars0))"
    using run five_min_signals_duplicate [of bars0 pm] by auto
  then have d: "distinct (map ts bars)"
    by (simp add: bars sort_index_def distinct_map_sort_key)
  have ev: "events = signal_rows pm ?rws None"
    using run five_min_signals_distinct [OF d0, of pm] bars by simp
  have m: "map (\<lambda>r. ts (fst r)) ?rws = map ts bars"
    by (rule nth_equalityI) simp_all
  have "\<exists>st. events_at (ts (fst (?rws ! i))) (signal_rows pm ?rws None)
    = (case fst (signal_step pm (fst (?rws ! i)) (fst (snd (?rws ! i))) (snd (snd (?rws ! i))) st) of
         None \<Rightarrow> [] | Some e \<Rightarrow> [e])"
    by (rule events_at_signal_rows) (use d m i in simp_all)
  then show ?thesis using i ev by simp
qed

lemma run_length:
  assumes "five_min_signals bars0 pm = Inr events"
  shows "length events \<le> length bars0"
proof -
  let ?bars = "sort_index (dropna bars0)"
  have d0: "distinct (map ts (dropna bars0))"
    using assms five_min_signals_duplicate [of bars0 pm] by auto
  have "events = signal_rows pm (zip ?bars (zip (rolling_vwap ?bars) (atr ?bars))) None"
    using assms five_min_signals_distinct [OF d0, of pm] by simp
  then have "length events \<le> length (zip ?bars (zip (rolling_vwap ?bars) (atr ?bars)))"
    by (simp only: signal_rows_length)
  also have "\<dots> = length (dropna bars0)" by (simp add: sort_index_def)
  also have "\<dots> \<le> length bars0" by (simp add: dropna_def)
  finally show ?thesis .
qed

text \<open>
  Claim C3. On a run that returns, the rules are tried on each bar in the order
  break_premarket, vwap_reclaim, vwap_loss, long_wick, atr_stop and the first rule whose
  condition holds decides the event of the bar; a bar has at most one event, so there
  are at most as many events as bars; a bar that breaks the premarket high has the
  break_premarket ENTRY as its only event, whether or not it shows a long wick.
\<close>

theorem detector_rule_priority:
  assumes "five_min_signals bars0 pm = Inr events"
    and "bars = sort_index (dropna bars0)" and "i < length bars"
    and "row = bars ! i" and "v = rolling_vwap bars ! i"
  shows "length events \<le> length bars0
    \<and> length (events_at (ts row) events) \<le> 1
    \<and> (breaks_premarket pm row \<longrightarrow>
         events_at (ts row) events = [(ts row, ENTRY, break_premarket, Close row)])
    \<and> (\<not> breaks_premarket pm row \<and> reclaims_vwap row v \<longrightarrow>
         events_at (ts row) events = [(ts row, ENTRY, vwap_reclaim, Close row)])
    \<and> (\<not> breaks_premarket pm row \<and> \<not> reclaims_vwap row v \<and> loses_vwap row v \<longrightarrow>
         events_at (ts row) events = [(ts row, EXIT, vwap_loss, Close row)])
    \<and> (\<not> breaks_premarket pm row \<and> \<not> reclaims_vwap row v \<and> \<not> loses_vwap row v
          \<and> detect_long_wick row \<longrightarrow>
         events_at (ts row) events = [(ts row, EXIT, long_wick, Close row)])
    \<and> (\<not> breaks_premarket pm row \<and> \<not> reclaims_vwap row v \<and> \<not> loses_vwap row v
          \<and> \<not> detect_long_wick row \<longrightarrow>
         events_at (ts row) events = []
         \<or> events_at (ts row) events = [(ts row, EXIT, atr_stop, Close row)])"
proof -
  obtain st where "events_at (ts row) events
    = (case fst (signal_step pm row v (atr bars ! i) st) of None \<Rightarrow> [] | Some e \<Rightarrow> [e])"
    using run_events_at [OF assms(1,2,3)] assms(4,5) by auto
  then have "events_at (ts row) events =
     (if breaks_premarket pm row then [(ts row, ENTRY, break_premarket, Close row)]
      else if reclaims_vwap row v then [(ts row, ENTRY, vwap_reclaim, Close row)]
      else if loses_vwap row v then [(ts row, EXIT, vwap_loss, Close row)]
      else if detect_long_wick row then [(ts row, EXIT, long_wick, Close row)]
      else if (\<exists>e. st = Some e
                \<and> cell_le (Close row) (cell_sub e (cell_mul (Some (3 / 2)) (atr bars ! i))))
      then [(ts row, EXIT, atr_stop, Close row)]
      else [])"
    by (simp only: signal_step_event_list)
  moreover have "length events \<le> length bars0"
    using assms(1) by (rule run_length)
  ultimately show ?thesis by (auto split: if_splits)
qed

theorem detector_rule_priority_witness:
  "five_min_signals [wick_bar] (Some (Some 10)) = Inr [(900, ENTRY, break_premarket, Some 12)]
   \<and> sort_index (dropna [wick_bar]) = [wick_bar]
   \<and> breaks_premarket (Some (Some 10)) wick_bar \<and> detect_long_wick wick_bar
   \<and> events_at (ts wick_bar) [(900, ENTRY, break_premarket, Some 12)]
       = [(ts wick_bar, ENTRY, break_premarket, Close wick_bar)]
   \<and> length [(900 :: int, ENTRY, break_premarket, Some (12 :: real))] \<le> length [wick_bar]"
proof -
  have run: "five_min_signals [wick_bar] (Some (Some 10))
      = Inr [(900, ENTRY, break_premarket, Some 12)]"
    by code_simp
  have bars: "[wick_bar] = sort_index (dropna [wick_bar])"
    by code_simp
  have i: "0 < length [wick_bar]" by simp
  have c: "breaks_premarket (Some (Some 10)) wick_bar" "detect_long_wick wick_bar"
    by code_simp+
  from detector_rule_priority [OF run bars i, of wick_bar "rolling_vwap [wick_bar] ! 0"] c(1)
  have "events_at (ts wick_bar) [(900, ENTRY, break_premarket, Some 12)]
       = [(ts wick_bar, ENTRY, break_premarket, Close wick_bar)]"
    by simp
  with run bars c show ?thesis by simp
qed

section \<open>Malformed input\<close>

text \<open>
  Claim C9 says that a frame which violates the high/low invariants or whose timestamps
  are out of order makes the detector fail. It does not: a bar whose high is below its
  low yields a long_wick EXIT, and two bars in reverse order are sorted and processed.
\<close>

theorem malformed_bars_not_rejected:
  "\<not> bar_valid inverted_bar
   \<and> five_min_signals [inverted_bar] None = Inr [(600, EXIT, long_wick, Some 5)]
   \<and> \<not> sorted (map ts [gap_down_bar, flat_bar])
   \<and> five_min_signals [gap_down_bar, flat_bar] None = Inr [(300, EXIT, vwap_loss, Some (15 / 2))]"
  by code_simp

text \<open>
  Claim C9, amended. The detector checks nothing about its input. The pass fails, with
  the \<open>TypeError\<close> of a float conversion, exactly when two of the rows kept by \<open>dropna\<close>
  carry the same timestamp; every other frame, in whatever order and with whatever
  highs and lows, yields a list of events.
\<close>

theorem detector_fails_on_duplicate_labels_only:
  "(distinct (map ts (dropna bars0)) \<longrightarrow> (\<exists>events. five_min_signals bars0 pm = Inr events))
   \<and> (\<not> distinct (map ts (dropna bars0)) \<longrightarrow> five_min_signals bars0 pm = Inl TypeError)"
  using five_min_signals_distinct [of bars0 pm] five_min_signals_duplicate [of bars0 pm]
  by simp

theorem detector_fails_on_duplicate_labels_only_witness:
  "distinct (map ts (dropna [gap_down_bar, flat_bar]))
   \<and> (\<exists>events. five_min_signals [gap_down_bar, flat_bar] None = Inr events)
   \<and> \<not> distinct (map ts (dropna [flat_bar, flat_bar]))
   \<and> five_min_signals [flat_bar, flat_bar] None = Inl TypeError"
proof -
  have d1: "distinct (map ts (dropna [gap_down_bar, flat_bar]))" by code_simp
  have d2: "\<not> distinct (map ts (dropna [flat_bar, flat_bar]))" by code_simp
  show ?thesis
    using d1 d2 detector_fails_on_duplicate_labels_only [of "[gap_down_bar, flat_bar]" None]
      detector_fails_on_duplicate_labels_only [of "[flat_bar, flat_bar]" None]
    by blast
qed

section \<open>Exit rules and the position state\<close>

text \<open>
  The state is \<open>Entered\<close> exactly when the last event emitted so far is an ENTRY, and
  the atr_stop rule is reached only in that state.
\<close>

lemma signal_rows_kind:
  "e \<in> set (signal_rows pm rws st)
   \<Longrightarrow> ev_kind e = (if ev_reason e = break_premarket \<or> ev_reason e = vwap_reclaim then ENTRY else EXIT)"
proof (induction rws arbitrary: st)
  case Nil
  then show ?case by simp
next
  case (Cons r rws)
  let ?ev = "fst (signal_step pm (fst r) (fst (snd r)) (snd (snd r)) st)"
  let ?st = "snd (signal_step pm (fst r) (fst (snd r)) (snd (snd r)) st)"
  from Cons.prems have "?ev = Some e \<or> e \<in> set (signal_rows pm rws ?st)"
    by (auto simp: signal_rows_Cons simp del: signal_rows.simps split: option.splits)
  then show ?case
  proof
    assume "?ev = Some e"
    then show ?thesis by (rule signal_step_kind)
  next
    assume "e \<in> set (signal_rows pm rws ?st)"
    then show ?thesis by (rule Cons.IH)
  qed
qed

lemma signal_rows_atr_stop:
  "j < length (signal_rows pm rws st) \<Longrightarrow> ev_reason (signal_rows pm rws st ! j) = atr_stop
   \<Longrightarrow> (if j = 0 then st \<noteq> None else ev_kind (signal_rows pm rws st ! (j - 1)) = ENTRY)"
proof (induction rws arbitrary: st j)
  case Nil
  then show ?case by simp
next
  case (Cons r rws)
  let ?ev = "fst (signal_step pm (fst r) (fst (snd r)) (snd (snd r)) st)"
  let ?st = "snd (signal_step pm (fst r) (fst (snd r)) (snd (snd r)) st)"
  let ?rest = "signal_rows pm rws ?st"
  show ?case
  proof (cases ?ev)
    case None
    then have new: "signal_rows pm (r # rws) st = ?rest"
      by (simp add: signal_rows_Cons del: signal_rows.simps)
    have st: "?st = st" using None by (simp add: signal_step_state)
    show ?thesis
      using Cons.IH [of j ?st] Cons.prems unfolding new st by simp
  next
    case (Some e)
    then have new: "signal_rows pm (r # rws) st = e # ?rest"
      by (simp add: signal_rows_Cons del: signal_rows.simps)
    have st: "?st \<noteq> None \<longleftrightarrow> ev_kind e = ENTRY"
      using Some by (simp add: signal_step_state)
    show ?thesis
    proof (cases j)
      case 0
      with Cons.prems(2) new have "ev_reason e = atr_stop" by simp
      with Some have "st \<noteq> None" by (rule signal_step_atr_stop)
      with 0 show ?thesis by simp
    next
      case (Suc j')
      with Cons.prems new have j': "j' < length ?rest" "ev_reason (?rest ! j') = atr_stop"
        by simp_all
      from Cons.IH [OF j']
      have "if j' = 0 then ?st \<noteq> None else ev_kind (?rest ! (j' - 1)) = ENTRY" .
      then show ?thesis
        unfolding new using Suc st by (cases j') simp_all
    qed
  qed
qed

text \<open>
  Claim C4. In every state, a bar on which the two entry rules do not fire and the close
  is below the VWAP yields a vwap_loss EXIT and the state \<open>Flat\<close>, and likewise for
  long_wick when vwap_loss does not fire; the atr_stop rule fires in the state \<open>Entered\<close>
  only. In the events of a run every atr_stop EXIT comes directly after an ENTRY, while
  an EXIT may come first: the run on the flat bar and the gap-down bar emits a single
  vwap_loss EXIT.
\<close>

theorem exits_and_position_state:
  "(\<not> breaks_premarket pm row \<and> \<not> reclaims_vwap row v \<and> loses_vwap row v \<longrightarrow>
      signal_step pm row v a st = (Some (ts row, EXIT, vwap_loss, Close row), None))
   \<and> (\<not> breaks_premarket pm row \<and> \<not> reclaims_vwap row v \<and> \<not> loses_vwap row v
        \<and> detect_long_wick row \<longrightarrow>
      signal_step pm row v a st = (Some (ts row, EXIT, long_wick, Close row), None))
   \<and> (fst (signal_step pm row v a st) = Some e \<and> ev_reason e = atr_stop \<longrightarrow>
      st \<noteq> None \<and> ev_kind e = EXIT \<and> snd (signal_step pm row v a st) = None)
   \<and> (five_min_signals bars0 pm = Inr events \<and> j < length events
        \<and> ev_reason (events ! j) = atr_stop \<longrightarrow>
      ev_kind (events ! j) = EXIT \<and> 0 < j \<and> ev_kind (events ! (j - 1)) = ENTRY)
   \<and> five_min_signals [flat_bar, gap_down_bar] None = Inr [(300, EXIT, vwap_loss, Some (15 / 2))]"
proof (intro conjI impI)
  assume "\<not> breaks_premarket pm row \<and> \<not> reclaims_vwap row v \<and> loses_vwap row v"
  then show "signal_step pm row v a st = (Some (ts row, EXIT, vwap_loss, Close row), None)"
    using signal_step_event [of pm row v a st] signal_step_state [of pm row v a st]
    by (simp add: prod_eq_iff ev_kind_def)
next
  assume "\<not> breaks_premarket pm row \<and> \<not> reclaims_vwap row v \<and> \<not> loses_vwap row v
        \<and> detect_long_wick row"
  then show "signal_step pm row v a st = (Some (ts row, EXIT, long_wick, Close row), None)"
    using signal_step_event [of pm row v a st] signal_step_state [of pm row v a st]
    by (simp add: prod_eq_iff ev_kind_def)
next
  assume h: "fst (signal_step pm row v a st) = Some e \<and> ev_reason e = atr_stop"
  then show "st \<noteq> None" using signal_step_atr_stop by blast
  from h show k: "ev_kind e = EXIT" using signal_step_kind [of pm row v a st e] by simp
  from h k show "snd (signal_step pm row v a st) = None"
    by (simp add: signal_step_state)
next
  assume h: "five_min_signals bars0 pm = Inr events \<and> j < length events
        \<and> ev_reason (events ! j) = atr_stop"
  let ?bars = "sort_index (dropna bars0)"
  let ?rws = "zip ?bars (zip (rolling_vwap ?bars) (atr ?bars))"
  have d0: "distinct (map ts (dropna bars0))"
    using h five_min_signals_duplicate [of bars0 pm] by auto
  have ev: "events = signal_rows pm ?rws None"
    using h five_min_signals_distinct [OF d0, of pm] by simp
  have "events ! j \<in> set (signal_rows pm ?rws None)" using h ev by simp
  then show "ev_kind (events ! j) = EXIT"
    using signal_rows_kind [of "events ! j" pm ?rws None] h by simp
  have j: "j < length (signal_rows pm ?rws None)"
    "ev_reason (signal_rows pm ?rws None ! j) = atr_stop"
    using h ev by simp_all
  from signal_rows_atr_stop [OF j]
  have "if j = 0 then (None :: cell option) \<noteq> None
        else ev_kind (signal_rows pm ?rws None ! (j - 1)) = ENTRY" .
  then have "0 < j \<and> ev_kind (signal_rows pm ?rws None ! (j - 1)) = ENTRY"
    by (cases "j = 0") simp_all
  then show "0 < j" and "ev_kind (events ! (j - 1)) = ENTRY"
    unfolding ev by blast+
next
  show "five_min_signals [flat_bar, gap_down_bar] None = Inr [(300, EXIT, vwap_loss, Some (15 / 2))]"
    by code_simp
qed

theorem exits_and_position_state_witness:
  "\<not> breaks_premarket None gap_down_bar \<and> \<not> reclaims_vwap gap_down_bar (Some (35 / 4))
   \<and> loses_vwap gap_down_bar (Some (35 / 4))
   \<and> signal_step None gap_down_bar (Some (35 / 4)) (Some 1) None
       = (Some (ts gap_down_bar, EXIT, vwap_loss, Close gap_down_bar), None)
   \<and> \<not> breaks_premarket None wick_bar \<and> \<not> reclaims_vwap wick_bar (Some 12)
   \<and> \<not> loses_vwap wick_bar (Some 12) \<and> detect_long_wick wick_bar
   \<and> signal_step None wick_bar (Some 12) (Some 1) None
       = (Some (ts wick_bar, EXIT, long_wick, Close wick_bar), None)
   \<and> five_min_signals [silent_bar, drop_bar] (Some (Some 50))
       = Inr [(0, ENTRY, break_premarket, Some 100), (300, EXIT, atr_stop, Some 40)]
   \<and> ev_reason ([(0, ENTRY, break_premarket, Some 100), (300, EXIT, atr_stop, Some 40)] ! 1) = atr_stop
   \<and> ev_kind ([(0, ENTRY, break_premarket, Some 100), (300, EXIT, atr_stop, Some 40)] ! (1 - 1)) = ENTRY
   \<and> fst (signal_step (Some (Some 50)) drop_bar (Some 40) (Some 30) (Some (Some 100)))
       = Some (300, EXIT, atr_stop, Some 40)
   \<and> snd (signal_step (Some (Some 50)) drop_bar (Some 40) (Some 30) (Some (Some 100))) = None"
proof -
  have c1: "\<not> breaks_premarket None gap_down_bar \<and> \<not> reclaims_vwap gap_down_bar (Some (35 / 4))
      \<and> loses_vwap gap_down_bar (Some (35 / 4))"
    by code_simp
  have c2: "\<not> breaks_premarket None wick_bar \<and> \<not> reclaims_vwap wick_bar (Some 12)
      \<and> \<not> loses_vwap wick_bar (Some 12) \<and> detect_long_wick wick_bar"
    by code_simp
  have run: "five_min_signals [silent_bar, drop_bar] (Some (Some 50))
       = Inr [(0, ENTRY, break_premarket, Some 100), (300, EXIT, atr_stop, Some 40)]"
    by code_simp
  have r: "ev_reason ([(0, ENTRY, break_premarket, Some 100), (300, EXIT, atr_stop, Some 40)] ! 1)
      = atr_stop"
    by (simp add: ev_reason_def)
  have s: "fst (signal_step (Some (Some 50)) drop_bar (Some 40) (Some 30) (Some (Some 100)))
       = Some (300, EXIT, atr_stop, Some 40)"
    by code_simp
  have sr: "ev_reason (300, EXIT, atr_stop, Some (40 :: real)) = atr_stop"
    by (simp add: ev_reason_def)
  note t1 = exits_and_position_state [of None gap_down_bar "Some (35 / 4)" "Some 1" None]
  note t2 = exits_and_position_state [of None wick_bar "Some 12" "Some 1" None]
  note t3 = exits_and_position_state [of "Some (Some 50)" drop_bar "Some 40" "Some 30"
      "Some (Some 100)" "(300, EXIT, atr_stop, Some 40)" "[silent_bar, drop_bar]"
      "[(0, ENTRY, break_premarket, Some 100), (300, EXIT, atr_stop, Some 40)]" 1]
  have a: "signal_step None gap_down_bar (Some (35 / 4)) (Some 1) None
       = (Some (ts gap_down_bar, EXIT, vwap_loss, Close gap_down_bar), None)"
    using t1 c1 by blast
  have b: "signal_step None wick_bar (Some 12) (Some 1) None
       = (Some (ts wick_bar, EXIT, long_wick, Close wick_bar), None)"
    using t2 c2 by blast
  have l: "(1 :: nat) < length [(0 :: int, ENTRY, break_premarket, Some (100 :: real)),
      (300, EXIT, atr_stop, Some 40)]"
    by simp
  have c: "ev_kind ([(0, ENTRY, break_premarket, Some 100), (300, EXIT, atr_stop, Some 40)] ! (1 - 1))
      = ENTRY"
    using t3 run r l by blast
  have d: "snd (signal_step (Some (Some 50)) drop_bar (Some 40) (Some 30) (Some (Some 100))) = None"
    using t3 s sr by blast
  show ?thesis using c1 c2 run r s a b c d by blast
qed

section \<open>Bars without cumulative volume\<close>

lemma vwap_from_no_volume:
  assumes "\<forall>b\<in>set bars. Volume b = None \<or> Volume b = Some 0"
    and "c \<in> set (ffill_from None (map2 cell_div
            (cumsum_from P (map (\<lambda>b. cell_mul (Close b) (Volume b)) bars))
            (replace_zero (cumsum_from 0 (map Volume bars)))))"
  shows "c = None"
  using assms
proof (induction bars arbitrary: P)
  case Nil
  then show ?case by (simp add: replace_zero_def)
next
  case (Cons b bars)
  have rest: "\<forall>b\<in>set bars. Volume b = None \<or> Volume b = Some 0"
    using Cons.prems(1) by simp
  from Cons.prems(1) have "Volume b = None \<or> Volume b = Some 0" by simp
  then show ?case
  proof
    assume v: "Volume b = None"
    with Cons.prems(2) have "c = None \<or> c \<in> set (ffill_from None (map2 cell_div
            (cumsum_from P (map (\<lambda>b. cell_mul (Close b) (Volume b)) bars))
            (replace_zero (cumsum_from 0 (map Volume bars)))))"
      by (cases "Close b") (auto simp: replace_zero_def)
    then show ?thesis using Cons.IH [OF rest] by blast
  next
    assume v: "Volume b = Some 0"
    show ?thesis
    proof (cases "Close b")
      case None
      with v Cons.prems(2) have "c = None \<or> c \<in> set (ffill_from None (map2 cell_div
            (cumsum_from P (map (\<lambda>b. cell_mul (Close b) (Volume b)) bars))
            (replace_zero (cumsum_from 0 (map Volume bars)))))"
        by (auto simp: replace_zero_def)
      then show ?thesis using Cons.IH [OF rest] by blast
    next
      case (Some x)
      with v Cons.prems(2) have "c = None \<or> c \<in> set (ffill_from None (map2 cell_div
            (cumsum_from (P + x * 0) (map (\<lambda>b. cell_mul (Close b) (Volume b)) bars))
            (replace_zero (cumsum_from 0 (map Volume bars)))))"
        by (auto simp: replace_zero_def)
      then show ?thesis using Cons.IH [OF rest] by blast
    qed
  qed
qed

lemma rolling_vwap_no_volume:
  assumes "\<forall>b\<in>set bars. Volume b = None \<or> Volume b = Some 0" and "i < length bars"
  shows "rolling_vwap bars ! i = None"
proof -
  have "rolling_vwap bars ! i \<in> set (rolling_vwap bars)" using assms(2) by simp
  then show ?thesis
    using vwap_from_no_volume [OF assms(1), of _ 0]
    by (simp add: rolling_vwap_def cumsum_def ffill_def)
qed

lemma no_volume_upto:
  assumes "\<forall>b\<in>set bars. \<forall>x. Volume b = Some x \<longrightarrow> 0 \<le> x"
    and "sum_list (List.map_filter Volume bars) = 0"
  shows "\<forall>b\<in>set bars. Volume b = None \<or> Volume b = Some 0"
proof
  fix b
  assume b: "b \<in> set bars"
  have nn: "\<And>x. x \<in> set (List.map_filter Volume bars) \<Longrightarrow> 0 \<le> x"
    using assms(1) by (auto simp: List.map_filter_def)
  have z: "\<forall>x\<in>set (List.map_filter Volume bars). x = 0"
    using sum_list_nonneg_eq_0_iff [of "List.map_filter Volume bars"] nn assms(2) by blast
  show "Volume b = None \<or> Volume b = Some 0"
  proof (cases "Volume b")
    case None
    then show ?thesis by simp
  next
    case (Some x)
    then have "x \<in> set (List.map_filter Volume bars)"
      using map_filter_mem [where f = Volume, OF b] by simp
    with z Some show ?thesis by simp
  qed
qed

text \<open>
  A bar whose VWAP is NaN fails both VWAP comparisons, whatever the volumes are: its
  event, if any, is decided by the premarket, long_wick and atr_stop rules.
\<close>

lemma undefined_vwap_falls_through:
  assumes "five_min_signals bars0 pm = Inr events"
    and "bars = sort_index (dropna bars0)" and "i < length bars"
    and "rolling_vwap bars ! i = None"
  shows "\<exists>st. events_at (ts (bars ! i)) events =
     (if breaks_premarket pm (bars ! i)
      then [(ts (bars ! i), ENTRY, break_premarket, Close (bars ! i))]
      else if detect_long_wick (bars ! i)
      then [(ts (bars ! i), EXIT, long_wick, Close (bars ! i))]
      else if (\<exists>e. st = Some e
                \<and> cell_le (Close (bars ! i)) (cell_sub e (cell_mul (Some (3 / 2)) (atr bars ! i))))
      then [(ts (bars ! i), EXIT, atr_stop, Close (bars ! i))]
      else [])"
proof -
  let ?row = "bars ! i"
  have n: "\<not> reclaims_vwap ?row None" "\<not> loses_vwap ?row None"
    by (simp_all add: reclaims_vwap_def loses_vwap_def)
  obtain st where "events_at (ts ?row) events
    = (case fst (signal_step pm ?row None (atr bars ! i) st) of None \<Rightarrow> [] | Some e \<Rightarrow> [e])"
    using run_events_at [OF assms(1,2,3)] assms(4) by auto
  then have "events_at (ts ?row) events =
     (if breaks_premarket pm ?row then [(ts ?row, ENTRY, break_premarket, Close ?row)]
      else if detect_long_wick ?row then [(ts ?row, EXIT, long_wick, Close ?row)]
      else if (\<exists>e. st = Some e
                \<and> cell_le (Close ?row) (cell_sub e (cell_mul (Some (3 / 2)) (atr bars ! i))))
      then [(ts ?row, EXIT, atr_stop, Close ?row)]
      else [])"
    using n by (simp only: signal_step_event_list if_False)
  then show ?thesis by blast
qed

text \<open>
  Claim C10. When no volume is negative and the cumulative volume through bar \<open>i\<close> is
  zero, the VWAP at \<open>i\<close> is undefined and bar \<open>i\<close> has neither a vwap_reclaim nor a
  vwap_loss event: evaluation falls through to the long_wick and atr_stop rules.
\<close>

theorem no_vwap_signal_without_volume:
  assumes "five_min_signals bars0 pm = Inr events"
    and "bars = sort_index (dropna bars0)" and "i < length bars"
    and "\<forall>b\<in>set (take (Suc i) bars). \<forall>x. Volume b = Some x \<longrightarrow> 0 \<le> x"
    and "sum_list (List.map_filter Volume (take (Suc i) bars)) = 0"
  shows "rolling_vwap bars ! i = None
    \<and> (\<forall>e\<in>set events. fst e = ts (bars ! i) \<longrightarrow>
          ev_reason e \<noteq> vwap_reclaim \<and> ev_reason e \<noteq> vwap_loss)
    \<and> (\<not> breaks_premarket pm (bars ! i) \<and> detect_long_wick (bars ! i) \<longrightarrow>
          events_at (ts (bars ! i)) events = [(ts (bars ! i), EXIT, long_wick, Close (bars ! i))])"
proof -
  let ?row = "bars ! i"
  have "\<forall>b\<in>set (take (Suc i) bars). Volume b = None \<or> Volume b = Some 0"
    using assms(4,5) by (rule no_volume_upto)
  then have "rolling_vwap (take (Suc i) bars) ! i = None"
    by (rule rolling_vwap_no_volume) (use assms(3) in simp)
  then have v: "rolling_vwap bars ! i = None"
    using rolling_vwap_nth_take [OF assms(3)] by simp
  obtain st where p: "events_at (ts ?row) events =
     (if breaks_premarket pm ?row then [(ts ?row, ENTRY, break_premarket, Close ?row)]
      else if detect_long_wick ?row then [(ts ?row, EXIT, long_wick, Close ?row)]
      else if (\<exists>e. st = Some e
                \<and> cell_le (Close ?row) (cell_sub e (cell_mul (Some (3 / 2)) (atr bars ! i))))
      then [(ts ?row, EXIT, atr_stop, Close ?row)]
      else [])"
    using undefined_vwap_falls_through [OF assms(1,2,3) v] by blast
  have at: "events_at (ts ?row) events = [(ts ?row, ENTRY, break_premarket, Close ?row)]
      \<or> events_at (ts ?row) events = [(ts ?row, EXIT, long_wick, Close ?row)]
      \<or> events_at (ts ?row) events = []
      \<or> events_at (ts ?row) events = [(ts ?row, EXIT, atr_stop, Close ?row)]"
    unfolding p by simp
  have ra: "\<forall>e\<in>set (events_at (ts ?row) events).
      ev_reason e \<noteq> vwap_reclaim \<and> ev_reason e \<noteq> vwap_loss"
    using at by (auto simp: ev_reason_def)
  have "\<forall>e\<in>set events. fst e = ts ?row \<longrightarrow>
      ev_reason e \<noteq> vwap_reclaim \<and> ev_reason e \<noteq> vwap_loss"
  proof (intro ballI impI)
    fix e
    assume "e \<in> set events" and "fst e = ts ?row"
    then have "e \<in> set (events_at (ts ?row) events)" by (simp add: events_at_def)
    with ra show "ev_reason e \<noteq> vwap_reclaim \<and> ev_reason e \<noteq> vwap_loss" by blast
  qed
  moreover have "\<not> breaks_premarket pm ?row \<and> detect_long_wick ?row \<longrightarrow>
      events_at (ts ?row) events = [(ts ?row, EXIT, long_wick, Close ?row)]"
    unfolding p by simp
  ultimately show ?thesis using v by blast
qed

theorem no_vwap_signal_without_volume_witness:
  "five_min_signals [silent_wick_bar] None = Inr [(0, EXIT, long_wick, Some 12)]
   \<and> [silent_wick_bar] = sort_index (dropna [silent_wick_bar])
   \<and> Volume silent_wick_bar = Some 0
   \<and> sum_list (List.map_filter Volume (take (Suc 0) [silent_wick_bar])) = 0
   \<and> rolling_vwap [silent_wick_bar] ! 0 = None
   \<and> \<not> breaks_premarket None ([silent_wick_bar] ! 0) \<and> detect_long_wick ([silent_wick_bar] ! 0)
   \<and> events_at (ts ([silent_wick_bar] ! 0)) [(0, EXIT, long_wick, Some 12)]
       = [(ts ([silent_wick_bar] ! 0), EXIT, long_wick, Close ([silent_wick_bar] ! 0))]"
proof -
  have run: "five_min_signals [silent_wick_bar] None = Inr [(0, EXIT, long_wick, Some 12)]"
    by code_simp
  have bars: "[silent_wick_bar] = sort_index (dropna [silent_wick_bar])"
    by code_simp
  have i: "0 < length [silent_wick_bar]" by simp
  have vol: "Volume silent_wick_bar = Some 0" by (simp add: silent_wick_bar_def)
  then have nn: "\<forall>b\<in>set (take (Suc 0) [silent_wick_bar]). \<forall>x. Volume b = Some x \<longrightarrow> 0 \<le> x"
    by simp
  have z: "sum_list (List.map_filter Volume (take (Suc 0) [silent_wick_bar])) = 0"
    using vol by simp
  have c: "\<not> breaks_premarket None ([silent_wick_bar] ! 0)" "detect_long_wick ([silent_wick_bar] ! 0)"
    by code_simp+
  from no_vwap_signal_without_volume [OF run bars i nn z] c
  have "rolling_vwap [silent_wick_bar] ! 0 = None
    \<and> events_at (ts ([silent_wick_bar] ! 0)) [(0, EXIT, long_wick, Some 12)]
       = [(ts ([silent_wick_bar] ! 0), EXIT, long_wick, Close ([silent_wick_bar] ! 0))]"
    by blast
  with run bars vol z c show ?thesis by blast
qed

section \<open>Premarket reference\<close>

lemma set_map_filter_id: "set (List.map_filter id xs) = {x. Some x \<in> set xs}"
  by (induction xs) (auto split: option.splits)

lemma series_max_None: "series_max xs = None \<longleftrightarrow> (\<forall>x. Some x \<notin> set xs)"
proof -
  have "series_max xs = None \<longleftrightarrow> List.map_filter id xs = []"
    by (simp add: series_max_def split: list.splits)
  also have "\<dots> \<longleftrightarrow> set (List.map_filter id xs) = {}" by simp
  also have "\<dots> \<longleftrightarrow> (\<forall>x. Some x \<notin> set xs)"
    unfolding set_map_filter_id by blast
  finally show ?thesis .
qed

lemma series_max_Some:
  assumes "series_max xs = Some m"
  shows "Some m \<in> set xs \<and> (\<forall>x. Some x \<in> set xs \<longrightarrow> x \<le> m)"
proof -
  from assms obtain y ys where l: "List.map_filter id xs = y # ys" and m: "m = fold max ys y"
    by (auto simp: series_max_def split: list.splits)
  have "Max (set (y # ys)) = fold max ys y" by (rule Max.set_eq_fold)
  then have "m = Max (set (List.map_filter id xs))" using m l by simp
  then have mx: "m = Max {x. Some x \<in> set xs}"
    by (simp only: set_map_filter_id)
  have eq: "{x. Some x \<in> set xs} = set (List.map_filter id xs)"
    by (rule set_map_filter_id [symmetric])
  have ne: "{x. Some x \<in> set xs} \<noteq> {}" unfolding eq using l by simp
  have fin: "finite {x. Some x \<in> set xs}" unfolding eq by simp
  have "m \<in> {x. Some x \<in> set xs}" unfolding mx using fin ne by (rule Max_in)
  moreover have "\<forall>x. Some x \<in> set xs \<longrightarrow> x \<le> m"
    unfolding mx using fin by (simp add: Max_ge)
  ultimately show ?thesis by simp
qed

text \<open>
  The mask of \<open>compute_premarket_high\<close> with the default cutoff selects the timestamps
  whose time of day, in seconds after midnight, is below 09:30:00, on whatever day.
\<close>

lemma is_premarket_time_of_day: "is_premarket 9 30 t \<longleftrightarrow> t mod 86400 < 34200"
proof -
  define q where "q = t div 60"
  define r where "r = t mod 60"
  define H where "H = (q div 60) mod 24"
  define M where "M = q mod 60"
  have r: "0 \<le> r" "r < 60" by (simp_all add: r_def)
  have H: "0 \<le> H" "H < 24" by (simp_all add: H_def)
  have M: "0 \<le> M" "M < 60" by (simp_all add: M_def)
  have "t div 3600 = q div 60"
    using zdiv_zmult2_eq [of 60 t 60] by (simp add: q_def)
  then have h: "ts_hour t = H" by (simp add: ts_hour_def H_def)
  have m: "ts_minute t = M" by (simp add: ts_minute_def M_def q_def)
  have "t mod 86400 = 60 * (q mod 1440) + r"
    using zmod_zmult2_eq [of 1440 t 60] by (simp add: q_def r_def)
  moreover have "q mod 1440 = 60 * H + M"
    using zmod_zmult2_eq [of 24 q 60] by (simp add: H_def M_def)
  ultimately have tod: "t mod 86400 = 3600 * H + 60 * M + r" by simp
  show ?thesis
    unfolding is_premarket_def h m tod using r H M by auto
qed

text \<open>
  Claim C7. On a frame whose highs are numbers, \<open>compute_premarket_high\<close> returns
  \<open>None\<close> exactly when no bar of the frame, on any day, has a time of day before 09:30
  (in particular on the empty frame); otherwise it returns the high of such a bar that
  is at least the high of every such bar.
\<close>

theorem premarket_high_is_maximum:
  assumes "\<forall>b\<in>set df. High b \<noteq> None"
  shows "(compute_premarket_high df 9 30 = None \<longleftrightarrow> (\<forall>b\<in>set df. \<not> ts b mod 86400 < 34200))
    \<and> (\<forall>m. compute_premarket_high df 9 30 = Some m \<longrightarrow>
          (\<exists>x. m = Some x)
          \<and> (\<exists>b\<in>set df. ts b mod 86400 < 34200 \<and> High b = m)
          \<and> (\<forall>b\<in>set df. ts b mod 86400 < 34200 \<longrightarrow> cell_le (High b) m))"
proof -
  let ?pm = "filter (\<lambda>b. is_premarket 9 30 (ts b)) df"
  have pm: "set ?pm = {b \<in> set df. ts b mod 86400 < 34200}"
    by (auto simp: is_premarket_time_of_day)
  have none: "compute_premarket_high df 9 30 = None \<longleftrightarrow> ?pm = []"
    by (cases "df = []") (simp_all add: compute_premarket_high_def Let_def)
  have "?pm = [] \<longleftrightarrow> set ?pm = {}" by (simp only: set_empty)
  also have "\<dots> \<longleftrightarrow> (\<forall>b\<in>set df. \<not> ts b mod 86400 < 34200)"
    unfolding pm by blast
  finally have 1: "compute_premarket_high df 9 30 = None
      \<longleftrightarrow> (\<forall>b\<in>set df. \<not> ts b mod 86400 < 34200)"
    using none by simp
  have 2: "(\<exists>x. m = Some x) \<and> (\<exists>b\<in>set df. ts b mod 86400 < 34200 \<and> High b = m)
      \<and> (\<forall>b\<in>set df. ts b mod 86400 < 34200 \<longrightarrow> cell_le (High b) m)"
    if m: "compute_premarket_high df 9 30 = Some m" for m
  proof -
    from m have ne: "?pm \<noteq> []" and sm: "m = series_max (map High ?pm)"
      by (auto simp: compute_premarket_high_def Let_def split: if_splits)
    from ne obtain b0 where b0: "b0 \<in> set ?pm" by (cases ?pm) auto
    then obtain h0 where "High b0 = Some h0" using assms by auto
    with b0 have "Some h0 \<in> set (map High ?pm)" by force
    then have "series_max (map High ?pm) \<noteq> None"
      unfolding series_max_None by blast
    then obtain x where x: "m = Some x" using sm by auto
    then have sx: "series_max (map High ?pm) = Some x" using sm by simp
    have mem: "Some x \<in> set (map High ?pm)"
      and ub: "\<forall>y. Some y \<in> set (map High ?pm) \<longrightarrow> y \<le> x"
      using series_max_Some [OF sx] by simp_all
    from mem obtain b where "b \<in> set ?pm" "High b = Some x" by auto
    then have ex: "\<exists>b\<in>set df. ts b mod 86400 < 34200 \<and> High b = m"
      using x pm by auto
    have "\<forall>b\<in>set df. ts b mod 86400 < 34200 \<longrightarrow> cell_le (High b) m"
    proof (intro ballI impI)
      fix b
      assume b: "b \<in> set df" "ts b mod 86400 < 34200"
      then obtain h where h: "High b = Some h" using assms by auto
      from b have "b \<in> set ?pm" using pm by simp
      with h have "Some h \<in> set (map High ?pm)" by force
      with ub have "h \<le> x" by blast
      with h x show "cell_le (High b) m" by simp
    qed
    with x ex show ?thesis by blast
  qed
  from 1 2 show ?thesis by blast
qed

theorem premarket_high_is_maximum_witness:
  "High early_bar \<noteq> None \<and> High open_bar \<noteq> None \<and> High next_day_bar \<noteq> None
   \<and> compute_premarket_high [early_bar, open_bar, next_day_bar] 9 30 = Some (Some 200)
   \<and> \<not> ts open_bar mod 86400 < 34200
   \<and> ts early_bar mod 86400 < 34200 \<and> cell_le (High early_bar) (Some 200)
   \<and> compute_premarket_high [open_bar] 9 30 = None
   \<and> compute_premarket_high [] 9 30 = None"
proof -
  have h: "High early_bar \<noteq> None" "High open_bar \<noteq> None" "High next_day_bar \<noteq> None"
    by (simp_all add: early_bar_def open_bar_def next_day_bar_def)
  then have a: "\<forall>b\<in>set [early_bar, open_bar, next_day_bar]. High b \<noteq> None" by simp
  have a1: "\<forall>b\<in>set [open_bar]. High b \<noteq> None" using h by simp
  have a0: "\<forall>b\<in>set ([] :: bar list). High b \<noteq> None" by simp
  have r: "compute_premarket_high [early_bar, open_bar, next_day_bar] 9 30 = Some (Some 200)"
    by code_simp
  have t: "\<not> ts open_bar mod 86400 < 34200" "ts early_bar mod 86400 < 34200"
    by (simp_all add: open_bar_def early_bar_def)
  have e: "cell_le (High early_bar) (Some 200)"
    using premarket_high_is_maximum [OF a] r t(2) by simp
  have n1: "compute_premarket_high [open_bar] 9 30 = None"
    using premarket_high_is_maximum [OF a1] t(1) by simp
  have n0: "compute_premarket_high [] 9 30 = None"
    using premarket_high_is_maximum [OF a0] by simp
  show ?thesis using h r t e n1 n0 by blast
qed

section \<open>Gap percentage and ranking\<close>

subsection \<open>Gap of one symbol\<close>




subsection \<open>Ranking\<close>






section \<open>Failures while replaying a symbol\<close>

text \<open>
  In the first loop a raise for one ticker is caught and the ticker left out; in the
  second loop a raise of the intraday fetch ends the run.
\<close>

lemma compute_gaps_skips_failure:
  "fetch_daily t = Inl e
   \<Longrightarrow> compute_gaps fetch_daily target (t # rest) = compute_gaps fetch_daily target rest"
  by simp

lemma replay_symbols_aborts:
  "fetch_5m (fst r) = Inl e \<Longrightarrow> replay_symbols fetch_5m target (r # rest) db = (db, Some e)"
  by simp

text \<open>
  Claim C2. No exception raised while one symbol is processed aborts the replay of the
  others. The loop that replays the ranked symbols has no handler: with \<open>AAA\<close> ranked
  before \<open>BBB\<close> and the intraday fetch of \<open>AAA\<close> raising, the run ends with that
  exception and nothing is written for \<open>BBB\<close>, although \<open>BBB\<close> alone is replayed and
  written. A raise of the daily fetch (of \<open>DDD\<close>) in the first loop is caught and \<open>BBB\<close>
  is replayed.
\<close>

theorem replay_aborts_on_intraday_failure:
  "snd (run_replay_for_date (ex_cfg [''AAA'', ''BBB'']) ex_daily ex_5m (Some 1) Map.empty)
     = Some FetchError
   \<and> fst (run_replay_for_date (ex_cfg [''AAA'', ''BBB'']) ex_daily ex_5m (Some 1) Map.empty) ''BBB''
     = None
   \<and> snd (run_replay_for_date (ex_cfg [''BBB'']) ex_daily ex_5m (Some 1) Map.empty) = None
   \<and> fst (run_replay_for_date (ex_cfg [''BBB'']) ex_daily ex_5m (Some 1) Map.empty) ''BBB''
     = Some (''EXIT:vwap_loss'', Some (15 / 2))
   \<and> snd (run_replay_for_date (ex_cfg [''DDD'', ''BBB'']) ex_daily ex_5m (Some 1) Map.empty) = None
   \<and> fst (run_replay_for_date (ex_cfg [''DDD'', ''BBB'']) ex_daily ex_5m (Some 1) Map.empty) ''BBB''
     = Some (''EXIT:vwap_loss'', Some (15 / 2))"
  by code_simp

end
